theory Spec2Isabelle
  imports Main
begin

section \<open>Values shared by the history core and its adapters\<close>

text \<open>
  The only exception the modelled code can raise is the \<^verbatim>\<open>TypeError\<close> of calling
  \<^verbatim>\<open>href.indexOf\<close> on \<^verbatim>\<open>undefined\<close>. A JavaScript exception does not roll the
  state back, so every operation that can raise returns the state it reached together
  with \<open>None\<close> (returned normally) or \<open>Some e\<close> (raised \<open>e\<close>).
\<close>

datatype jserror = TypeError

text \<open>
  The \<^verbatim>\<open>state\<close> of a location is \<^verbatim>\<open>any\<close>. The adapters build it as
  \<^verbatim>\<open>{...state, key: createRandomKey()}\<close>: the caller's payload (possibly
  \<^verbatim>\<open>undefined\<close>) and a random token. \<^verbatim>\<open>createRandomKey\<close> reads \<^verbatim>\<open>Math.random\<close>;
  a token is named here by the number of the draw that produced it, and nothing
  below inspects it. \<^verbatim>\<open>HState None None\<close> is the empty object \<^verbatim>\<open>{}\<close>.
\<close>

datatype 'p hstate = HState (props: "'p option") (key: "nat option")

record 'p location =
  href :: string
  pathname :: string
  search :: string
  hash :: string
  state :: "'p hstate"

section \<open>The location parser\<close>

text \<open>
  \<^verbatim>\<open>String.prototype.indexOf\<close>, \<^verbatim>\<open>substring\<close> and \<^verbatim>\<open>slice\<close> on a list of characters.
  \<^verbatim>\<open>indexOf\<close> is \<open>-1\<close> when the character is absent; \<^verbatim>\<open>substring\<close> clamps both
  bounds to the string and swaps them when they are out of order; \<^verbatim>\<open>slice\<close> counts
  a negative bound from the end and is empty when the bounds are out of order. A
  missing (\<^verbatim>\<open>undefined\<close>) end is \<open>None\<close>.
\<close>

definition indexOf :: "string \<Rightarrow> char \<Rightarrow> int" where
  "indexOf s c = (if c \<in> set s then int (length (takeWhile (\<lambda>x. x \<noteq> c) s)) else - 1)"

definition substring :: "string \<Rightarrow> int \<Rightarrow> int option \<Rightarrow> string" where
  "substring s indexStart indexEnd =
     (let n = int (length s);
          a = max 0 (min indexStart n);
          b = (case indexEnd of None \<Rightarrow> n | Some e \<Rightarrow> max 0 (min e n));
          lo = min a b;
          hi = max a b
      in take (nat (hi - lo)) (drop (nat lo) s))"

definition slice :: "string \<Rightarrow> int \<Rightarrow> int option \<Rightarrow> string" where
  "slice s indexStart indexEnd =
     (let n = int (length s);
          from = (if indexStart < 0 then max (n + indexStart) 0 else min indexStart n);
          to = (case indexEnd of None \<Rightarrow> n
                | Some e \<Rightarrow> (if e < 0 then max (n + e) 0 else min e n))
      in take (nat (to - from)) (drop (nat from) s))"

definition parseLocation :: "string \<Rightarrow> 'p hstate \<Rightarrow> 'p location" where
  "parseLocation hr st =
     (let hashIndex = indexOf hr CHR ''#'';
          searchIndex = indexOf hr CHR ''?''
      in \<lparr> href = hr,
           pathname = substring hr 0
             (Some (if hashIndex > 0
                    then (if searchIndex > 0 then min hashIndex searchIndex else hashIndex)
                    else (if searchIndex > 0 then searchIndex else int (length hr)))),
           search = (if searchIndex > - 1
                     then slice hr searchIndex (if hashIndex = - 1 then None else Some hashIndex)
                     else []),
           hash = (if hashIndex > - 1 then substring hr hashIndex None else []),
           state = st \<rparr>)"

section \<open>The history core\<close>

text \<open>
  The closures put on the queue by \<^verbatim>\<open>push\<close>, \<^verbatim>\<open>replace\<close>, \<^verbatim>\<open>go\<close>, \<^verbatim>\<open>back\<close> and
  \<^verbatim>\<open>forward\<close>: each one calls the adapter primitive of the same name with the
  captured arguments.
\<close>

datatype 'p task =
    PushTask string "'p option"
  | ReplaceTask string "'p option"
  | GoTask int
  | BackTask
  | ForwardTask

text \<open>
  The argument of \<^verbatim>\<open>createHistory\<close>. The closures of an adapter share mutable
  variables (the entry array and cursor of the memory adapter, the \<^verbatim>\<open>window\<close> of
  the browser adapter): \<open>'s\<close> is the type of that shared state and every primitive
  maps it to the new one. A primitive also returns how often it called the
  \<^verbatim>\<open>onUpdate\<close> handler before returning (the wrapper that the browser adapter
  installs around \<^verbatim>\<open>window.history.pushState\<close> calls it once after the native
  function). \<open>listener = None\<close> is \<^verbatim>\<open>listener: false\<close>; \<open>Some sub\<close> is a
  function that installs the subscription and returns the function that removes it.
  The field \<^verbatim>\<open>back\<close> is named \<open>backward\<close>, \<open>back\<close> being a reserved word here.
\<close>

record ('s, 'p) opts =
  getLocation :: "'s \<Rightarrow> jserror + 'p location"
  listener :: "('s \<Rightarrow> 's \<times> ('s \<Rightarrow> 's)) option"
  pushState :: "string \<Rightarrow> 'p option \<Rightarrow> 's \<Rightarrow> 's \<times> nat"
  replaceState :: "string \<Rightarrow> 'p option \<Rightarrow> 's \<Rightarrow> 's \<times> nat"
  go :: "int \<Rightarrow> 's \<Rightarrow> 's \<times> nat"
  backward :: "'s \<Rightarrow> 's \<times> nat"
  forward :: "'s \<Rightarrow> 's \<times> nat"
  createHref :: "string \<Rightarrow> string"

text \<open>
  The variables closed over by the object that \<^verbatim>\<open>createHistory\<close> returns, and the
  adapter's shared state. Listener and blocker callbacks are opaque functions: they
  are named by numbers (function identity), \<open>notified\<close> lists the listener calls
  made so far and \<open>asked\<close> the blocker calls, in order. \<open>listeners\<close> is the
  \<^verbatim>\<open>Set\<close> in insertion order. \<open>unloadGuard\<close> tells whether
  \<^verbatim>\<open>beforeUnloadListener\<close> is registered on the global event target (registering
  it twice, or removing it when absent, changes nothing there).

  A blocker receives the continuations \<^verbatim>\<open>retry\<close> (which is \<^verbatim>\<open>tryFlush\<close>) and
  \<^verbatim>\<open>cancel\<close>. \<^verbatim>\<open>tryFlush\<close> returns right after calling the blocker and so do its
  callers, hence a continuation called inside the blocker has the effect of the same
  continuation called after the operation returned: the choices of a blocker are the
  operations \<open>tryFlush\<close>, \<open>cancel\<close> and \<open>unblock\<close> applied to the state that the
  operation returned. Listener callbacks are taken not to call back into the history.
\<close>

record ('s, 'p) history =
  location :: "'p location"
  unsub :: "'s \<Rightarrow> 's"
  listeners :: "nat list"
  blockers :: "nat list"
  queue :: "'p task list"
  adapter :: "'s"
  notified :: "nat list"
  asked :: "nat list"
  unloadGuard :: bool

definition createHistory :: "('s, 'p) opts \<Rightarrow> 's \<Rightarrow> jserror + ('s, 'p) history" where
  "createHistory opts s =
     (case getLocation opts s of
        Inl e \<Rightarrow> Inl e
      | Inr l \<Rightarrow> Inr \<lparr> location = l, unsub = (\<lambda>x. x), listeners = [], blockers = [],
                     queue = [], adapter = s, notified = [], asked = [],
                     unloadGuard = False \<rparr>)"

definition onUpdate :: "('s, 'p) opts \<Rightarrow> ('s, 'p) history \<Rightarrow> jserror option \<times> ('s, 'p) history" where
  "onUpdate opts h =
     (case getLocation opts (adapter h) of
        Inl e \<Rightarrow> (Some e, h)
      | Inr l \<Rightarrow> (None, h\<lparr> location := l, notified := notified h @ listeners h \<rparr>))"

text \<open>The \<open>n\<close> calls of \<^verbatim>\<open>onUpdate\<close> that an adapter primitive makes; the first that raises ends them.\<close>

fun fire :: "('s, 'p) opts \<Rightarrow> nat \<Rightarrow> ('s, 'p) history \<Rightarrow> jserror option \<times> ('s, 'p) history" where
  "fire opts 0 h = (None, h)"
| "fire opts (Suc n) h =
     (case onUpdate opts h of
        (Some e, h') \<Rightarrow> (Some e, h')
      | (None, h') \<Rightarrow> fire opts n h')"

text \<open>The body of a queued closure: the adapter primitive it calls.\<close>

fun perform :: "('s, 'p) opts \<Rightarrow> 'p task \<Rightarrow> 's \<Rightarrow> 's \<times> nat" where
  "perform opts (PushTask path st) s = pushState opts path st s"
| "perform opts (ReplaceTask path st) s = replaceState opts path st s"
| "perform opts (GoTask n) s = go opts n s"
| "perform opts BackTask s = backward opts s"
| "perform opts ForwardTask s = forward opts s"

text \<open>
  \<^verbatim>\<open>while (queue.length) { queue.shift()?.() }\<close>: the head is removed, then called.
  An exception leaves the loop with the rest of the queue in place.
\<close>

function drain :: "('s, 'p) opts \<Rightarrow> ('s, 'p) history \<Rightarrow> jserror option \<times> ('s, 'p) history" where
  "drain opts h =
     (case queue h of
        [] \<Rightarrow> (None, h)
      | t # ts \<Rightarrow>
          (case perform opts t (adapter h) of
             (s', n) \<Rightarrow>
               (case fire opts n (h\<lparr> queue := ts, adapter := s' \<rparr>) of
                  (Some e, h') \<Rightarrow> (Some e, h')
                | (None, h') \<Rightarrow> drain opts h')))"
  by pat_completeness auto
termination
proof (relation "measure (\<lambda>(opts, h). length (queue h))", goal_cases)
  case 1
  show ?case by simp
next
  case (2 opts h t ts s' n e h')
  have upd: "queue (snd (onUpdate opts x)) = queue x" for x
    by (simp add: onUpdate_def split: sum.splits)
  have fired: "queue (snd (fire opts k x)) = queue x" for k x
  proof (induction k arbitrary: x)
    case 0
    show ?case by simp
  next
    case (Suc k)
    show ?case
    proof (cases "onUpdate opts x")
      case (Pair r x')
      with Suc [of x'] upd [of x] show ?thesis
        by (cases r) simp_all
    qed
  qed
  from 2 have "(None, h') = fire opts n (h\<lparr>queue := ts, adapter := s'\<rparr>)"
    by simp
  then have "h' = snd (fire opts n (h\<lparr>queue := ts, adapter := s'\<rparr>))"
    by (metis snd_conv)
  then have "queue h' = ts"
    by (simp add: fired)
  with 2 show ?case
    by simp
qed

definition cancel :: "('s, 'p) history \<Rightarrow> ('s, 'p) history" where
  "cancel h = h\<lparr> blockers := [], unloadGuard := False \<rparr>"

definition tryFlush :: "('s, 'p) opts \<Rightarrow> ('s, 'p) history \<Rightarrow> jserror option \<times> ('s, 'p) history" where
  "tryFlush opts h =
     (case blockers h of
        b # bs \<Rightarrow> (None, h\<lparr> asked := asked h @ [b] \<rparr>)
      | [] \<Rightarrow>
          (case drain opts h of
             (Some e, h') \<Rightarrow> (Some e, h')
           | (None, h') \<Rightarrow> (if listener opts = None then onUpdate opts h' else (None, h'))))"

definition queueTask :: "('s, 'p) opts \<Rightarrow> 'p task \<Rightarrow> ('s, 'p) history \<Rightarrow> jserror option \<times> ('s, 'p) history" where
  "queueTask opts t h = tryFlush opts (h\<lparr> queue := queue h @ [t] \<rparr>)"

definition history_push :: "('s, 'p) opts \<Rightarrow> string \<Rightarrow> 'p option \<Rightarrow> ('s, 'p) history \<Rightarrow> jserror option \<times> ('s, 'p) history" where
  "history_push opts path st h = queueTask opts (PushTask path st) h"

definition history_replace :: "('s, 'p) opts \<Rightarrow> string \<Rightarrow> 'p option \<Rightarrow> ('s, 'p) history \<Rightarrow> jserror option \<times> ('s, 'p) history" where
  "history_replace opts path st h = queueTask opts (ReplaceTask path st) h"

definition history_go :: "('s, 'p) opts \<Rightarrow> int \<Rightarrow> ('s, 'p) history \<Rightarrow> jserror option \<times> ('s, 'p) history" where
  "history_go opts n h = queueTask opts (GoTask n) h"

definition history_back :: "('s, 'p) opts \<Rightarrow> ('s, 'p) history \<Rightarrow> jserror option \<times> ('s, 'p) history" where
  "history_back opts h = queueTask opts BackTask h"

definition history_forward :: "('s, 'p) opts \<Rightarrow> ('s, 'p) history \<Rightarrow> jserror option \<times> ('s, 'p) history" where
  "history_forward opts h = queueTask opts ForwardTask h"

definition history_createHref :: "('s, 'p) opts \<Rightarrow> string \<Rightarrow> string" where
  "history_createHref opts str = createHref opts str"

text \<open>
  \<^verbatim>\<open>listen(cb)\<close> and the function it returns (\<open>unsubscribe cb\<close>); the latter calls
  whatever the variable \<^verbatim>\<open>unsub\<close> holds when the set has become empty.
\<close>

definition listen :: "('s, 'p) opts \<Rightarrow> nat \<Rightarrow> ('s, 'p) history \<Rightarrow> ('s, 'p) history" where
  "listen opts cb h =
     (let h1 = (if listeners h = []
                then (case listener opts of
                        Some sub \<Rightarrow>
                          (case sub (adapter h) of
                             (s', u) \<Rightarrow> h\<lparr> unsub := u, adapter := s' \<rparr>)
                      | None \<Rightarrow> h\<lparr> unsub := (\<lambda>x. x) \<rparr>)
                else h)
      in h1\<lparr> listeners := (if cb \<in> set (listeners h1) then listeners h1
                            else listeners h1 @ [cb]) \<rparr>)"

definition unsubscribe :: "nat \<Rightarrow> ('s, 'p) history \<Rightarrow> ('s, 'p) history" where
  "unsubscribe cb h =
     (let h1 = h\<lparr> listeners := removeAll cb (listeners h) \<rparr>
      in if listeners h1 = [] then h1\<lparr> adapter := unsub h1 (adapter h1) \<rparr> else h1)"

text \<open>\<^verbatim>\<open>block(cb)\<close> and the function it returns (\<open>unblock cb\<close>).\<close>

definition block :: "nat \<Rightarrow> ('s, 'p) history \<Rightarrow> ('s, 'p) history" where
  "block cb h =
     (let h1 = h\<lparr> blockers := blockers h @ [cb] \<rparr>
      in if length (blockers h1) = 1 then h1\<lparr> unloadGuard := True \<rparr> else h1)"

definition unblock :: "nat \<Rightarrow> ('s, 'p) history \<Rightarrow> ('s, 'p) history" where
  "unblock cb h =
     (let h1 = h\<lparr> blockers := filter (\<lambda>b. b \<noteq> cb) (blockers h) \<rparr>
      in if blockers h1 = [] then h1\<lparr> unloadGuard := False \<rparr> else h1)"

section \<open>The in-memory adapter\<close>

text \<open>
  The entry array is a JavaScript array: a length and a table of properties by
  integer key. \<^verbatim>\<open>entries.push(x)\<close> writes at the length and increments it;
  \<^verbatim>\<open>entries[i] = x\<close> writes at \<open>i\<close> and raises the length to \<open>i + 1\<close> when \<open>i\<close> is
  at or past it (a negative \<open>i\<close> is an ordinary property and leaves the length);
  \<^verbatim>\<open>entries[i]\<close> is \<^verbatim>\<open>undefined\<close> (\<open>None\<close>) where nothing was written.
\<close>

record jsarray =
  arr_length :: nat
  arr_elems :: "int \<Rightarrow> string option"

definition array_of :: "string list \<Rightarrow> jsarray" where
  "array_of xs =
     \<lparr> arr_length = length xs,
       arr_elems = (\<lambda>i. if 0 \<le> i \<and> i < int (length xs) then Some (xs ! nat i) else None) \<rparr>"

definition array_push :: "jsarray \<Rightarrow> string \<Rightarrow> jsarray" where
  "array_push a x =
     \<lparr> arr_length = arr_length a + 1,
       arr_elems = (arr_elems a)(int (arr_length a) \<mapsto> x) \<rparr>"

definition array_set :: "jsarray \<Rightarrow> int \<Rightarrow> string \<Rightarrow> jsarray" where
  "array_set a i x =
     \<lparr> arr_length = (if int (arr_length a) \<le> i then nat i + 1 else arr_length a),
       arr_elems = (arr_elems a)(i \<mapsto> x) \<rparr>"

text \<open>
  The variables of \<^verbatim>\<open>createMemoryHistory\<close>: \<open>entries\<close>, \<open>index\<close>, \<open>currentState\<close>;
  the number of random keys drawn; and the calls of the global
  \<^verbatim>\<open>window.history.go\<close> made by the adapter's \<^verbatim>\<open>go\<close>, in order.
\<close>

record 'p memory =
  entries :: jsarray
  index :: int
  currentState :: "'p hstate"
  keysDrawn :: nat
  windowGo :: "int list"

definition memory_getLocation :: "'p memory \<Rightarrow> jserror + 'p location" where
  "memory_getLocation m =
     (case arr_elems (entries m) (index m) of
        None \<Rightarrow> Inl TypeError
      | Some e \<Rightarrow> Inr (parseLocation e (currentState m)))"

definition memory_pushState :: "string \<Rightarrow> 'p option \<Rightarrow> 'p memory \<Rightarrow> 'p memory \<times> nat" where
  "memory_pushState path st m =
     (m\<lparr> currentState := HState st (Some (keysDrawn m)),
         keysDrawn := keysDrawn m + 1,
         entries := array_push (entries m) path,
         index := index m + 1 \<rparr>, 0)"

definition memory_replaceState :: "string \<Rightarrow> 'p option \<Rightarrow> 'p memory \<Rightarrow> 'p memory \<times> nat" where
  "memory_replaceState path st m =
     (m\<lparr> currentState := HState st (Some (keysDrawn m)),
         keysDrawn := keysDrawn m + 1,
         entries := array_set (entries m) (index m) path \<rparr>, 0)"

definition memory_back :: "'p memory \<Rightarrow> 'p memory \<times> nat" where
  "memory_back m = (m\<lparr> index := index m - 1 \<rparr>, 0)"

definition memory_forward :: "'p memory \<Rightarrow> 'p memory \<times> nat" where
  "memory_forward m = (m\<lparr> index := min (index m + 1) (int (arr_length (entries m)) - 1) \<rparr>, 0)"

definition memory_go :: "int \<Rightarrow> 'p memory \<Rightarrow> 'p memory \<times> nat" where
  "memory_go n m = (m\<lparr> windowGo := windowGo m @ [n] \<rparr>, 0)"

definition memory_opts :: "('p memory, 'p) opts" where
  "memory_opts =
     \<lparr> getLocation = memory_getLocation,
       listener = None,
       pushState = memory_pushState,
       replaceState = memory_replaceState,
       go = memory_go,
       backward = memory_back,
       forward = memory_forward,
       createHref = (\<lambda>path. path) \<rparr>"

text \<open>
  \<^verbatim>\<open>createMemoryHistory(opts)\<close>; \<open>None\<close> is the call without an argument, which takes
  the default \<^verbatim>\<open>{ initialEntries: ['/'] }\<close>. It raises when the first
  \<^verbatim>\<open>getLocation\<close> does.
\<close>

record memory_init =
  initialEntries :: "string list"
  initialIndex :: "int option"

definition memory_start :: "memory_init \<Rightarrow> 'p memory" where
  "memory_start i =
     \<lparr> entries = array_of (initialEntries i),
       index = (case initialIndex i of
                  None \<Rightarrow> int (length (initialEntries i)) - 1
                | Some k \<Rightarrow> k),
       currentState = HState None None,
       keysDrawn = 0,
       windowGo = [] \<rparr>"

definition createMemoryHistory :: "memory_init option \<Rightarrow> jserror + ('p memory, 'p) history" where
  "createMemoryHistory arg =
     createHistory memory_opts
       (memory_start (case arg of
                        None \<Rightarrow> \<lparr> initialEntries = [''/''], initialIndex = None \<rparr>
                      | Some i \<Rightarrow> i))"

section \<open>The browser and hash adapters\<close>

text \<open>
  The platform is not part of the repository: \<open>'w\<close> is the state of the global
  \<^verbatim>\<open>window\<close> and the record below is what the adapter reads of it and which native
  functions it calls. The second argument of the native \<^verbatim>\<open>pushState\<close> and
  \<^verbatim>\<open>replaceState\<close> is the URL (the title argument is always \<^verbatim>\<open>''\<close>).
\<close>

record ('w, 'p) platform =
  location_pathname :: "'w \<Rightarrow> string"
  location_search :: "'w \<Rightarrow> string"
  location_hash :: "'w \<Rightarrow> string"
  history_state :: "'w \<Rightarrow> 'p hstate"
  native_pushState :: "'p hstate \<Rightarrow> string \<Rightarrow> 'w \<Rightarrow> 'w"
  native_replaceState :: "'p hstate \<Rightarrow> string \<Rightarrow> 'w \<Rightarrow> 'w"
  native_go :: "int \<Rightarrow> 'w \<Rightarrow> 'w"
  native_back :: "'w \<Rightarrow> 'w"
  native_forward :: "'w \<Rightarrow> 'w"

text \<open>
  The value of the property \<^verbatim>\<open>window.history.pushState\<close> (and of
  \<^verbatim>\<open>replaceState\<close>): the native function, or the wrapper that \<^verbatim>\<open>listener\<close> puts
  around the value it found there. The wrapper calls the wrapped function, then
  \<^verbatim>\<open>onUpdate\<close>.
\<close>

datatype slot = Native | Wrapper slot

fun updates :: "slot \<Rightarrow> nat" where
  "updates Native = 0"
| "updates (Wrapper f) = Suc (updates f)"

datatype domcall = AddEventListener string | RemoveEventListener string

text \<open>
  What the closures of \<^verbatim>\<open>createBrowserHistory\<close> share: the window, the two
  properties of \<^verbatim>\<open>window.history\<close> that \<^verbatim>\<open>listener\<close> replaces, whether
  \<^verbatim>\<open>onUpdate\<close> is registered for the two events, the number of random keys drawn,
  and the calls of \<^verbatim>\<open>window.addEventListener\<close> and \<^verbatim>\<open>window.removeEventListener\<close>
  made so far, in order.
\<close>

record 'w browser =
  window :: 'w
  pushStateFn :: slot
  replaceStateFn :: slot
  onPushstate :: bool
  onPopstate :: bool
  keysMade :: nat
  domCalls :: "domcall list"

record 'w browser_arg =
  arg_getHref :: "('w \<Rightarrow> string) option"
  arg_createHref :: "(string \<Rightarrow> string) option"

definition getHref :: "('w, 'p) platform \<Rightarrow> 'w browser_arg \<Rightarrow> 'w \<Rightarrow> string" where
  "getHref W arg w =
     (case arg_getHref arg of
        Some f \<Rightarrow> f w
      | None \<Rightarrow> location_pathname W w @ location_search W w @ location_hash W w)"

definition browser_createHref :: "'w browser_arg \<Rightarrow> string \<Rightarrow> string" where
  "browser_createHref arg path =
     (case arg_createHref arg of Some f \<Rightarrow> f path | None \<Rightarrow> path)"

definition browser_getLocation :: "('w, 'p) platform \<Rightarrow> 'w browser_arg \<Rightarrow> 'w browser \<Rightarrow> jserror + 'p location" where
  "browser_getLocation W arg b =
     Inr (parseLocation (getHref W arg (window b)) (history_state W (window b)))"

definition browser_listener :: "'w browser \<Rightarrow> 'w browser \<times> ('w browser \<Rightarrow> 'w browser)" where
  "browser_listener b =
     (b\<lparr> onPushstate := True,
         onPopstate := True,
         pushStateFn := Wrapper (pushStateFn b),
         replaceStateFn := Wrapper (replaceStateFn b),
         domCalls := domCalls b @ [AddEventListener ''pushstate'', AddEventListener ''popstate''] \<rparr>,
      \<lambda>b'. b'\<lparr> pushStateFn := pushStateFn b,
                replaceStateFn := replaceStateFn b,
                onPushstate := False,
                onPopstate := False,
                domCalls := domCalls b' @
                  [RemoveEventListener ''pushstate'', RemoveEventListener ''popstate''] \<rparr>)"

definition browser_pushState :: "('w, 'p) platform \<Rightarrow> 'w browser_arg \<Rightarrow> string \<Rightarrow> 'p option \<Rightarrow> 'w browser \<Rightarrow> 'w browser \<times> nat" where
  "browser_pushState W arg path st b =
     (b\<lparr> window := native_pushState W (HState st (Some (keysMade b)))
                    (browser_createHref arg path) (window b),
         keysMade := keysMade b + 1 \<rparr>,
      updates (pushStateFn b))"

definition browser_replaceState :: "('w, 'p) platform \<Rightarrow> 'w browser_arg \<Rightarrow> string \<Rightarrow> 'p option \<Rightarrow> 'w browser \<Rightarrow> 'w browser \<times> nat" where
  "browser_replaceState W arg path st b =
     (b\<lparr> window := native_replaceState W (HState st (Some (keysMade b)))
                    (browser_createHref arg path) (window b),
         keysMade := keysMade b + 1 \<rparr>,
      updates (replaceStateFn b))"

definition browser_opts :: "('w, 'p) platform \<Rightarrow> 'w browser_arg \<Rightarrow> ('w browser, 'p) opts" where
  "browser_opts W arg =
     \<lparr> getLocation = browser_getLocation W arg,
       listener = Some browser_listener,
       pushState = browser_pushState W arg,
       replaceState = browser_replaceState W arg,
       go = (\<lambda>n b. (b\<lparr> window := native_go W n (window b) \<rparr>, 0)),
       backward = (\<lambda>b. (b\<lparr> window := native_back W (window b) \<rparr>, 0)),
       forward = (\<lambda>b. (b\<lparr> window := native_forward W (window b) \<rparr>, 0)),
       createHref = browser_createHref arg \<rparr>"

definition createBrowserHistory :: "('w, 'p) platform \<Rightarrow> 'w browser_arg \<Rightarrow> 'w browser \<Rightarrow> jserror + ('w browser, 'p) history" where
  "createBrowserHistory W arg b = createHistory (browser_opts W arg) b"

definition hash_arg :: "('w, 'p) platform \<Rightarrow> 'w browser_arg" where
  "hash_arg W =
     \<lparr> arg_getHref = Some (\<lambda>w. substring (location_hash W w) 1 None),
       arg_createHref = Some (\<lambda>path. CHR ''#'' # path) \<rparr>"

definition createHashHistory :: "('w, 'p) platform \<Rightarrow> 'w browser \<Rightarrow> jserror + ('w browser, 'p) history" where
  "createHashHistory W b = createBrowserHistory W (hash_arg W) b"

text \<open>
  The platform dispatching a \<^verbatim>\<open>popstate\<close> event (after a traversal it has carried
  out): \<^verbatim>\<open>onUpdate\<close> runs when it is registered for the event.
\<close>

definition popstate :: "('w browser, 'p) opts \<Rightarrow> ('w browser, 'p) history \<Rightarrow> jserror option \<times> ('w browser, 'p) history" where
  "popstate opts h = (if onPopstate (adapter h) then onUpdate opts h else (None, h))"

text \<open>
  A platform small enough to run: the window is the current URL (pathname, search
  and hash in one string) and the history state; the native \<^verbatim>\<open>pushState\<close> and
  \<^verbatim>\<open>replaceState\<close> take over the URL they are given, which is what a browser does
  with an absolute path on the same origin. Traversals (\<^verbatim>\<open>go\<close>, \<^verbatim>\<open>back\<close>,
  \<^verbatim>\<open>forward\<close>) take effect after the call returns and leave the window as it is.
\<close>

record 'p tab =
  tab_url :: string
  tab_state :: "'p hstate"

definition tab_platform :: "('p tab, 'p) platform" where
  "tab_platform =
     \<lparr> location_pathname = (\<lambda>w. pathname (parseLocation (tab_url w) (tab_state w))),
       location_search = (\<lambda>w. search (parseLocation (tab_url w) (tab_state w))),
       location_hash = (\<lambda>w. hash (parseLocation (tab_url w) (tab_state w))),
       history_state = tab_state,
       native_pushState = (\<lambda>st url w. \<lparr> tab_url = url, tab_state = st \<rparr>),
       native_replaceState = (\<lambda>st url w. \<lparr> tab_url = url, tab_state = st \<rparr>),
       native_go = (\<lambda>n w. w),
       native_back = (\<lambda>w. w),
       native_forward = (\<lambda>w. w) \<rparr>"

definition fresh_browser :: "'w \<Rightarrow> 'w browser" where
  "fresh_browser w =
     \<lparr> window = w, pushStateFn = Native, replaceStateFn = Native,
       onPushstate = False, onPopstate = False, keysMade = 0, domCalls = [] \<rparr>"

section \<open>Notions used to state the properties\<close>

text \<open>
  \<open>run opts ts s\<close> is the adapter state after the primitives of the tasks \<open>ts\<close>
  were called in the order of the list, starting from \<open>s\<close>; \<open>calls opts ts s\<close>
  counts the \<^verbatim>\<open>onUpdate\<close> calls that the adapter makes on the way. An adapter is
  \<open>quiet\<close> when its primitives never call \<^verbatim>\<open>onUpdate\<close>; an adapter that was never
  handed the handler (\<^verbatim>\<open>listener: false\<close>) cannot call it.
\<close>

definition run :: "('s, 'p) opts \<Rightarrow> 'p task list \<Rightarrow> 's \<Rightarrow> 's" where
  "run opts ts s = foldl (\<lambda>s t. fst (perform opts t s)) s ts"

fun calls :: "('s, 'p) opts \<Rightarrow> 'p task list \<Rightarrow> 's \<Rightarrow> nat" where
  "calls opts [] s = 0"
| "calls opts (t # ts) s = snd (perform opts t s) + calls opts ts (fst (perform opts t s))"

definition quiet :: "('s, 'p) opts \<Rightarrow> bool" where
  "quiet opts = (\<forall>t s. snd (perform opts t s) = 0)"

text \<open>
  A history is \<open>in_step\<close> when its \<open>location\<close> is what \<^verbatim>\<open>getLocation\<close> returns now,
  or \<^verbatim>\<open>getLocation\<close> raises.
\<close>

definition in_step :: "('s, 'p) opts \<Rightarrow> ('s, 'p) history \<Rightarrow> bool" where
  "in_step opts h =
     (case getLocation opts (adapter h) of Inl e \<Rightarrow> True | Inr l \<Rightarrow> location h = l)"

text \<open>
  A call of \<^verbatim>\<open>listen(cb)\<close>, or of the function that \<^verbatim>\<open>listen(cb)\<close> returned.
\<close>

datatype sub_op = Listen nat | Unsubscribe nat

fun apply_sub_op :: "('s, 'p) opts \<Rightarrow> ('s, 'p) history \<Rightarrow> sub_op \<Rightarrow> ('s, 'p) history" where
  "apply_sub_op opts h (Listen cb) = listen opts cb h"
| "apply_sub_op opts h (Unsubscribe cb) = unsubscribe cb h"

text \<open>
  The function that \<open>browser_listener\<close> returns when the two properties of
  \<^verbatim>\<open>window.history\<close> held \<open>ps\<close> and \<open>rs\<close>.
\<close>

definition teardown :: "slot \<Rightarrow> slot \<Rightarrow> 'w browser \<Rightarrow> 'w browser" where
  "teardown ps rs b =
     b\<lparr> pushStateFn := ps, replaceStateFn := rs, onPushstate := False, onPopstate := False,
        domCalls := domCalls b @
          [RemoveEventListener ''pushstate'', RemoveEventListener ''popstate''] \<rparr>"

text \<open>
  What \<^verbatim>\<open>listen\<close> and its unsubscribe functions keep true of a browser history:
  \<^verbatim>\<open>onUpdate\<close> is registered for \<^verbatim>\<open>popstate\<close> exactly while the listener set is not
  empty, and \<^verbatim>\<open>unsub\<close> is the initial empty function (no listener yet) or a
  function returned by the adapter's \<^verbatim>\<open>listener\<close>.
\<close>

definition subscription_inv :: "('w browser, 'p) history \<Rightarrow> bool" where
  "subscription_inv h =
     ((onPopstate (adapter h) \<longleftrightarrow> listeners h \<noteq> []) \<and>
      (listeners h = [] \<and> unsub h = (\<lambda>x. x) \<or> (\<exists>ps rs. unsub h = teardown ps rs)))"

section \<open>The parser: the three parts of an href\<close>

lemma indexOf_le: "indexOf s c \<le> int (length s)"
  by (simp add: indexOf_def length_takeWhile_le)

lemma indexOf_ge: "- 1 \<le> indexOf s c"
  by (simp add: indexOf_def)

lemma indexOf_absent: "c \<notin> set s \<Longrightarrow> indexOf s c = - 1"
  by (simp add: indexOf_def)

lemma substring_prefix:
  "0 \<le> e \<Longrightarrow> e \<le> int (length s) \<Longrightarrow> substring s 0 (Some e) = take (nat e) s"
  by (simp add: substring_def)

lemma substring_suffix:
  "0 \<le> a \<Longrightarrow> a \<le> int (length s) \<Longrightarrow> substring s a None = drop (nat a) s"
  by (simp add: substring_def)

lemma slice_suffix:
  "0 \<le> a \<Longrightarrow> a \<le> int (length s) \<Longrightarrow> slice s a None = drop (nat a) s"
  by (simp add: slice_def)

lemma slice_middle:
  "0 \<le> a \<Longrightarrow> a \<le> int (length s) \<Longrightarrow> 0 \<le> e \<Longrightarrow> e \<le> int (length s) \<Longrightarrow>
     slice s a (Some e) = take (nat (e - a)) (drop (nat a) s)"
  by (simp add: slice_def)

lemma three_parts:
  assumes "0 \<le> a" "a \<le> b"
  shows "take (nat a) s @ take (nat (b - a)) (drop (nat a) s) @ drop (nat b) s = s"
proof -
  have "nat (b - a) + nat a = nat b" using assms by simp
  then have eq: "drop (nat b) s = drop (nat (b - a)) (drop (nat a) s)"
    by (simp only: drop_drop)
  show ?thesis by (simp only: eq append_take_drop_id)
qed

lemma parseLocation_href: "href (parseLocation hr st) = hr"
  by (simp add: parseLocation_def Let_def)

lemma parseLocation_state: "state (parseLocation hr st) = st"
  by (simp add: parseLocation_def Let_def)

lemma parseLocation_pathname:
  "pathname (parseLocation hr st) =
     substring hr 0
       (Some (if indexOf hr CHR ''#'' > 0
              then (if indexOf hr CHR ''?'' > 0
                    then min (indexOf hr CHR ''#'') (indexOf hr CHR ''?'')
                    else indexOf hr CHR ''#'')
              else (if indexOf hr CHR ''?'' > 0 then indexOf hr CHR ''?''
                    else int (length hr))))"
  by (simp add: parseLocation_def Let_def)

lemma parseLocation_search:
  "search (parseLocation hr st) =
     (if indexOf hr CHR ''?'' > - 1
      then slice hr (indexOf hr CHR ''?'')
             (if indexOf hr CHR ''#'' = - 1 then None else Some (indexOf hr CHR ''#''))
      else [])"
  by (simp add: parseLocation_def Let_def)

lemma parseLocation_hash:
  "hash (parseLocation hr st) =
     (if indexOf hr CHR ''#'' > - 1 then substring hr (indexOf hr CHR ''#'') None else [])"
  by (simp add: parseLocation_def Let_def)

lemmas parseLocation_fields = parseLocation_pathname parseLocation_search parseLocation_hash

lemma parseLocation_concat:
  assumes "indexOf hr CHR ''#'' \<noteq> 0" "indexOf hr CHR ''?'' \<noteq> 0"
  shows "pathname (parseLocation hr st) @ search (parseLocation hr st) @ hash (parseLocation hr st) = hr"
proof -
  let ?h = "indexOf hr CHR ''#''" and ?q = "indexOf hr CHR ''?''"
  let ?n = "int (length hr)"
  have bh: "?h \<le> ?n" "- 1 \<le> ?h" and bq: "?q \<le> ?n" "- 1 \<le> ?q"
    by (simp_all add: indexOf_le indexOf_ge)
  show ?thesis
  proof (cases "?h = - 1")
    case hn: True
    show ?thesis
    proof (cases "?q = - 1")
      case True
      with hn show ?thesis
        by (simp add: parseLocation_fields substring_prefix)
    next
      case False
      with assms bq have "0 < ?q" by linarith
      with hn bq show ?thesis
        by (simp add: parseLocation_fields substring_prefix slice_suffix)
    qed
  next
    case False
    with assms bh have hp: "0 < ?h" by linarith
    show ?thesis
    proof (cases "?q = - 1")
      case True
      with hp bh show ?thesis
        by (simp add: parseLocation_fields substring_prefix substring_suffix)
    next
      case False
      with assms bq have qp: "0 < ?q" by linarith
      show ?thesis
      proof (cases "?q < ?h")
        case True
        with qp bh bq hp have "pathname (parseLocation hr st) = take (nat ?q) hr"
          "search (parseLocation hr st) = take (nat (?h - ?q)) (drop (nat ?q) hr)"
          "hash (parseLocation hr st) = drop (nat ?h) hr"
          by (simp_all add: parseLocation_fields substring_prefix substring_suffix slice_middle)
        with qp True three_parts [of ?q ?h hr] show ?thesis
          by simp
      next
        case False
        with hp qp bh bq have "pathname (parseLocation hr st) = take (nat ?h) hr"
          "search (parseLocation hr st) = []"
          "hash (parseLocation hr st) = drop (nat ?h) hr"
          by (simp_all add: parseLocation_fields substring_prefix substring_suffix slice_middle)
        then show ?thesis
          by simp
      qed
    qed
  qed
qed

lemma parseLocation_plain:
  assumes "CHR ''#'' \<notin> set hr" "CHR ''?'' \<notin> set hr"
  shows "parseLocation hr st = \<lparr> href = hr, pathname = hr, search = [], hash = [], state = st \<rparr>"
proof -
  have "pathname (parseLocation hr st) = hr" "search (parseLocation hr st) = []"
    "hash (parseLocation hr st) = []"
    using assms by (simp_all add: parseLocation_fields indexOf_absent substring_prefix)
  then show ?thesis
    using parseLocation_href [of hr st] parseLocation_state [of hr st]
    by (cases "parseLocation hr st") simp
qed

text \<open>
  Claim C2: for every href, \<open>pathname + search + hash\<close> of the parsed location is the
  href again, also when \<open>#\<close> or \<open>?\<close> stands at position 0. The parser does not do
  that: the pathname boundary tests \<open>hashIndex > 0\<close> and \<open>searchIndex > 0\<close> where the
  hash and search fields test \<open>> -1\<close>, so a delimiter at position 0 is absent for
  the pathname and present for the other two. For \<open>?a\<close> the pathname and the search
  are both \<open>?a\<close>, for \<open>#a\<close> the pathname and the hash are both \<open>#a\<close>: the three
  parts concatenate to \<open>?a?a\<close> and \<open>#a#a\<close>. (\<open>parseLocation_concat\<close> above is the
  invariant for every href that starts with neither delimiter.)
\<close>

theorem parseLocation_delimiter_first:
  "pathname (parseLocation ''?a'' st) = ''?a'' \<and>
   search (parseLocation ''?a'' st) = ''?a'' \<and>
   hash (parseLocation ''?a'' st) = [] \<and>
   href (parseLocation ''?a'' st) = ''?a'' \<and>
   pathname (parseLocation ''#a'' st) = ''#a'' \<and>
   search (parseLocation ''#a'' st) = [] \<and>
   hash (parseLocation ''#a'' st) = ''#a'' \<and>
   href (parseLocation ''#a'' st) = ''#a''"
proof -
  have i: "indexOf ''?a'' CHR ''#'' = - 1" "indexOf ''?a'' CHR ''?'' = 0"
    "indexOf ''#a'' CHR ''#'' = 0" "indexOf ''#a'' CHR ''?'' = - 1"
    by (simp_all add: indexOf_def)
  have s: "substring ''?a'' 0 (Some 2) = ''?a''" "slice ''?a'' 0 None = ''?a''"
    "substring ''#a'' 0 (Some 2) = ''#a''" "substring ''#a'' 0 None = ''#a''"
    by (simp_all add: substring_def slice_def)
  show ?thesis
    by (simp add: parseLocation_fields parseLocation_href i s)
qed

section \<open>The flush loop\<close>

declare drain.simps [simp del]

lemma drain_Nil: "queue h = [] \<Longrightarrow> drain opts h = (None, h)"
  by (simp add: drain.simps)

lemma drain_Cons:
  "queue h = t # ts \<Longrightarrow> drain opts h =
     (case fire opts (snd (perform opts t (adapter h)))
             (h\<lparr> queue := ts, adapter := fst (perform opts t (adapter h)) \<rparr>) of
        (Some e, h') \<Rightarrow> (Some e, h')
      | (None, h') \<Rightarrow> drain opts h')"
  by (simp add: drain.simps split: prod.splits)

lemma run_Nil: "run opts [] s = s"
  by (simp add: run_def)

lemma run_Cons: "run opts (t # ts) s = run opts ts (fst (perform opts t s))"
  by (simp add: run_def)

lemma run_append: "run opts (ts @ us) s = run opts us (run opts ts s)"
  by (simp add: run_def)

text \<open>onUpdate and fire change the location and the notification log only.\<close>

lemma onUpdate_cases:
  "(\<exists>l. getLocation opts (adapter h) = Inr l \<and>
        onUpdate opts h = (None, h\<lparr> location := l, notified := notified h @ listeners h \<rparr>))
   \<or> (\<exists>e. getLocation opts (adapter h) = Inl e \<and> onUpdate opts h = (Some e, h))"
  by (cases "getLocation opts (adapter h)") (simp_all add: onUpdate_def)

lemma onUpdate_frame:
  "adapter (snd (onUpdate opts h)) = adapter h"
  "queue (snd (onUpdate opts h)) = queue h"
  "listeners (snd (onUpdate opts h)) = listeners h"
  "blockers (snd (onUpdate opts h)) = blockers h"
  "unsub (snd (onUpdate opts h)) = unsub h"
  "asked (snd (onUpdate opts h)) = asked h"
  "unloadGuard (snd (onUpdate opts h)) = unloadGuard h"
  by (simp_all add: onUpdate_def split: sum.splits)

lemma fire_frame:
  "adapter (snd (fire opts n h)) = adapter h \<and>
   queue (snd (fire opts n h)) = queue h \<and>
   listeners (snd (fire opts n h)) = listeners h \<and>
   blockers (snd (fire opts n h)) = blockers h \<and>
   unsub (snd (fire opts n h)) = unsub h \<and>
   asked (snd (fire opts n h)) = asked h \<and>
   unloadGuard (snd (fire opts n h)) = unloadGuard h"
proof (induction n arbitrary: h)
  case 0
  show ?case by simp
next
  case (Suc n)
  obtain e h' where o: "onUpdate opts h = (e, h')"
    by (cases "onUpdate opts h")
  then have h': "h' = snd (onUpdate opts h)"
    by simp
  show ?case
  proof (cases e)
    case None
    with o have "fire opts (Suc n) h = fire opts n h'" by simp
    with Suc [of h'] show ?thesis
      by (simp add: h' onUpdate_frame)
  next
    case (Some a)
    with o have "fire opts (Suc n) h = (Some a, h')" by simp
    then show ?thesis
      by (simp add: h' onUpdate_frame)
  qed
qed

lemma fire_sync:
  "fire opts n h = (None, h') \<Longrightarrow> 0 < n \<Longrightarrow> getLocation opts (adapter h') = Inr (location h')"
proof (induction n arbitrary: h)
  case 0
  then show ?case by simp
next
  case (Suc n)
  from onUpdate_cases [of opts h] Suc.prems(1)
  obtain l where l: "getLocation opts (adapter h) = Inr l"
      "onUpdate opts h = (None, h\<lparr> location := l, notified := notified h @ listeners h \<rparr>)"
    by (auto split: option.splits)
  let ?h1 = "h\<lparr> location := l, notified := notified h @ listeners h \<rparr>"
  from l Suc.prems(1) have f: "fire opts n ?h1 = (None, h')" by simp
  show ?case
  proof (cases n)
    case 0
    with f have "h' = ?h1" by simp
    with l show ?thesis by simp
  next
    case (Suc k)
    with f Suc.IH [of ?h1] show ?thesis by simp
  qed
qed

lemma fire_notified:
  "fire opts n h = (None, h') \<Longrightarrow>
     notified h' = notified h @ concat (replicate n (listeners h))"
proof (induction n arbitrary: h)
  case 0
  then show ?case by simp
next
  case (Suc n)
  from onUpdate_cases [of opts h] Suc.prems(1)
  obtain l where l: "getLocation opts (adapter h) = Inr l"
      "onUpdate opts h = (None, h\<lparr> location := l, notified := notified h @ listeners h \<rparr>)"
    by (auto split: option.splits)
  let ?h1 = "h\<lparr> location := l, notified := notified h @ listeners h \<rparr>"
  from l Suc.prems(1) have f: "fire opts n ?h1 = (None, h')" by simp
  from Suc.IH [OF f] show ?case by simp
qed

text \<open>The loop: what it leaves alone, and what a run without exception has done.\<close>

lemma drain_frame:
  "listeners (snd (drain opts h)) = listeners h \<and>
   blockers (snd (drain opts h)) = blockers h \<and>
   unsub (snd (drain opts h)) = unsub h \<and>
   asked (snd (drain opts h)) = asked h \<and>
   unloadGuard (snd (drain opts h)) = unloadGuard h"
proof (induction "queue h" arbitrary: h)
  case Nil
  then show ?case by (simp add: drain_Nil)
next
  case (Cons t ts)
  let ?h1 = "h\<lparr> queue := ts, adapter := fst (perform opts t (adapter h)) \<rparr>"
  let ?n = "snd (perform opts t (adapter h))"
  obtain e h' where f: "fire opts ?n ?h1 = (e, h')"
    by (cases "fire opts ?n ?h1")
  then have h': "h' = snd (fire opts ?n ?h1)" by simp
  from fire_frame [of opts ?n ?h1] have fr:
    "queue h' = ts" "listeners h' = listeners h" "blockers h' = blockers h"
    "unsub h' = unsub h" "asked h' = asked h" "unloadGuard h' = unloadGuard h"
    by (simp_all add: h')
  from Cons(2) have q: "queue h = t # ts" by simp
  show ?case
  proof (cases e)
    case None
    with f q have "drain opts h = drain opts h'" by (simp add: drain_Cons)
    with Cons(1) [of h'] fr show ?thesis by simp
  next
    case (Some a)
    with f q have "drain opts h = (Some a, h')" by (simp add: drain_Cons)
    with fr show ?thesis by simp
  qed
qed

lemma drain_done:
  "drain opts h = (None, h') \<Longrightarrow>
     queue h' = [] \<and> adapter h' = run opts (queue h) (adapter h) \<and>
     notified h' = notified h @ concat (replicate (calls opts (queue h) (adapter h)) (listeners h))"
proof (induction "queue h" arbitrary: h)
  case Nil
  then show ?case by (simp add: drain_Nil run_Nil)
next
  case (Cons t ts)
  let ?h1 = "h\<lparr> queue := ts, adapter := fst (perform opts t (adapter h)) \<rparr>"
  let ?n = "snd (perform opts t (adapter h))"
  from Cons(2) have q: "queue h = t # ts" by simp
  obtain e h1 where f: "fire opts ?n ?h1 = (e, h1)"
    by (cases "fire opts ?n ?h1")
  with q Cons.prems have e: "e = None" and d: "drain opts h1 = (None, h')"
    by (auto simp: drain_Cons split: option.splits)
  from f have h1: "h1 = snd (fire opts ?n ?h1)" by simp
  from fire_frame [of opts ?n ?h1] have fr:
    "queue h1 = ts" "adapter h1 = fst (perform opts t (adapter h))" "listeners h1 = listeners h"
    by (simp_all add: h1)
  from f e fire_notified [of opts ?n ?h1 h1] have n1:
    "notified h1 = notified h @ concat (replicate ?n (listeners h))"
    by simp
  from Cons(1) [of h1] fr d have
    "queue h' = [] \<and> adapter h' = run opts ts (adapter h1) \<and>
     notified h' = notified h1 @ concat (replicate (calls opts ts (adapter h1)) (listeners h1))"
    by simp
  with fr n1 q show ?case
    by (simp add: run_Cons replicate_add)
qed

lemma drain_quiet:
  assumes "quiet opts"
  shows "drain opts h = (None, h\<lparr> queue := [], adapter := run opts (queue h) (adapter h) \<rparr>)"
proof (induction "queue h" arbitrary: h)
  case Nil
  then show ?case by (simp add: drain_Nil run_Nil)
next
  case (Cons t ts)
  let ?h1 = "h\<lparr> queue := ts, adapter := fst (perform opts t (adapter h)) \<rparr>"
  from Cons(2) have q: "queue h = t # ts" by simp
  from assms have "snd (perform opts t (adapter h)) = 0" by (simp add: quiet_def)
  with q have "drain opts h = drain opts ?h1" by (simp add: drain_Cons)
  with Cons(1) [of ?h1] q show ?case by (simp add: run_Cons)
qed

lemma drain_single:
  assumes "queue h = [t]"
  shows "queue (snd (drain opts h)) = [] \<and>
         adapter (snd (drain opts h)) = fst (perform opts t (adapter h))"
proof -
  let ?h1 = "h\<lparr> queue := [], adapter := fst (perform opts t (adapter h)) \<rparr>"
  let ?n = "snd (perform opts t (adapter h))"
  obtain e h' where f: "fire opts ?n ?h1 = (e, h')"
    by (cases "fire opts ?n ?h1")
  then have h': "h' = snd (fire opts ?n ?h1)" by simp
  from fire_frame [of opts ?n ?h1] have fr:
    "queue h' = []" "adapter h' = fst (perform opts t (adapter h))"
    by (simp_all add: h')
  show ?thesis
  proof (cases e)
    case None
    with f assms have "drain opts h = drain opts h'" by (simp add: drain_Cons)
    with fr show ?thesis by (simp add: drain_Nil)
  next
    case (Some a)
    with f assms have "drain opts h = (Some a, h')" by (simp add: drain_Cons)
    with fr show ?thesis by simp
  qed
qed

section \<open>A flush attempt\<close>

lemma tryFlush_blocked:
  "blockers h = b # bs \<Longrightarrow> tryFlush opts h = (None, h\<lparr> asked := asked h @ [b] \<rparr>)"
  by (simp add: tryFlush_def)

lemma queueTask_blocked:
  "blockers h = b # bs \<Longrightarrow>
     queueTask opts t h = (None, h\<lparr> queue := queue h @ [t], asked := asked h @ [b] \<rparr>)"
  by (simp add: queueTask_def tryFlush_def)

lemma tryFlush_open:
  "blockers h = [] \<Longrightarrow> tryFlush opts h =
     (case drain opts h of
        (Some e, h') \<Rightarrow> (Some e, h')
      | (None, h') \<Rightarrow> (if listener opts = None then onUpdate opts h' else (None, h')))"
  by (simp add: tryFlush_def)

lemma tryFlush_frame:
  "listeners (snd (tryFlush opts h)) = listeners h \<and>
   blockers (snd (tryFlush opts h)) = blockers h \<and>
   unsub (snd (tryFlush opts h)) = unsub h \<and>
   unloadGuard (snd (tryFlush opts h)) = unloadGuard h"
proof (cases "blockers h")
  case (Cons b bs)
  then show ?thesis by (simp add: tryFlush_blocked)
next
  case Nil
  obtain e h' where d: "drain opts h = (e, h')" by (cases "drain opts h")
  then have h': "h' = snd (drain opts h)" by simp
  from drain_frame [of opts h] have fr: "listeners h' = listeners h" "blockers h' = blockers h"
    "unsub h' = unsub h" "unloadGuard h' = unloadGuard h"
    by (simp_all add: h')
  show ?thesis
    using Nil d fr by (cases e) (simp_all add: tryFlush_open onUpdate_frame)
qed

lemma tryFlush_done:
  assumes "blockers h = []" "tryFlush opts h = (None, h')"
  shows "queue h' = [] \<and> adapter h' = run opts (queue h) (adapter h) \<and>
         notified h' = notified h @ concat (replicate (calls opts (queue h) (adapter h)) (listeners h))
            @ (if listener opts = None then listeners h else []) \<and>
         (listener opts = None \<longrightarrow> getLocation opts (adapter h') = Inr (location h'))"
proof -
  obtain e h1 where d: "drain opts h = (e, h1)" by (cases "drain opts h")
  with assms have e: "e = None"
    by (cases e) (simp_all add: tryFlush_open)
  from d e drain_done [of opts h h1] have dd: "queue h1 = []"
    "adapter h1 = run opts (queue h) (adapter h)"
    "notified h1 = notified h @ concat (replicate (calls opts (queue h) (adapter h)) (listeners h))"
    by simp_all
  from d drain_frame [of opts h] have l1: "listeners h1 = listeners h" by simp
  show ?thesis
  proof (cases "listener opts")
    case (Some sub)
    with assms d e have "h' = h1" by (simp add: tryFlush_open)
    with dd Some show ?thesis by simp
  next
    case None
    with assms d e have u: "onUpdate opts h1 = (None, h')" by (simp add: tryFlush_open)
    with onUpdate_cases [of opts h1] obtain l where l: "getLocation opts (adapter h1) = Inr l"
      "h' = h1\<lparr> location := l, notified := notified h1 @ listeners h1 \<rparr>"
      by auto
    with dd l1 None show ?thesis by simp
  qed
qed

lemma queueTask_single:
  assumes "blockers h = []" "queue h = []"
  shows "queue (snd (queueTask opts t h)) = [] \<and> blockers (snd (queueTask opts t h)) = [] \<and>
         adapter (snd (queueTask opts t h)) = fst (perform opts t (adapter h))"
proof -
  let ?h0 = "h\<lparr> queue := queue h @ [t] \<rparr>"
  have q: "queue ?h0 = [t]" and b: "blockers ?h0 = []" using assms by simp_all
  obtain e h1 where d: "drain opts ?h0 = (e, h1)" by (cases "drain opts ?h0")
  from drain_single [OF q, of opts] d have s: "queue h1 = []"
    "adapter h1 = fst (perform opts t (adapter h))"
    by simp_all
  from tryFlush_frame [of opts ?h0] b have "blockers (snd (queueTask opts t h)) = []"
    by (simp add: queueTask_def)
  moreover have "queue (snd (queueTask opts t h)) = [] \<and>
      adapter (snd (queueTask opts t h)) = fst (perform opts t (adapter h))"
    using b d s by (cases e) (simp_all add: queueTask_def tryFlush_open onUpdate_frame)
  ultimately show ?thesis by simp
qed

text \<open>While a blocker is installed, operations are only put on the queue.\<close>

lemma enqueue_blocked:
  assumes "blockers h \<noteq> []"
  shows "foldl (\<lambda>x t. snd (queueTask opts t x)) h ts =
           h\<lparr> queue := queue h @ ts, asked := asked h @ replicate (length ts) (hd (blockers h)) \<rparr>"
  using assms
proof (induction ts arbitrary: h)
  case Nil
  then show ?case by simp
next
  case (Cons t ts)
  then obtain b bs where b: "blockers h = b # bs" by (cases "blockers h") simp_all
  let ?h1 = "h\<lparr> queue := queue h @ [t], asked := asked h @ [b] \<rparr>"
  from b have "snd (queueTask opts t h) = ?h1" by (simp add: queueTask_blocked)
  moreover have "blockers ?h1 \<noteq> []" using b by simp
  ultimately show ?case
    using Cons.IH [of ?h1] b by (simp add: replicate_app_Cons_same)
qed

lemma unblock_all:
  "blockers (foldl (\<lambda>x b. unblock b x) h bs) = filter (\<lambda>b. b \<notin> set bs) (blockers h) \<and>
   queue (foldl (\<lambda>x b. unblock b x) h bs) = queue h \<and>
   adapter (foldl (\<lambda>x b. unblock b x) h bs) = adapter h \<and>
   location (foldl (\<lambda>x b. unblock b x) h bs) = location h"
proof (induction bs arbitrary: h)
  case Nil
  show ?case by simp
next
  case (Cons b bs)
  have u: "blockers (unblock b h) = filter (\<lambda>c. c \<noteq> b) (blockers h)"
    "queue (unblock b h) = queue h" "adapter (unblock b h) = adapter h"
    "location (unblock b h) = location h"
    by (simp_all add: unblock_def Let_def)
  have "filter (\<lambda>c. c \<notin> set bs) (filter (\<lambda>c. c \<noteq> b) (blockers h))
      = filter (\<lambda>c. c \<notin> set (b # bs)) (blockers h)"
    by (induction "blockers h") auto
  with Cons [of "unblock b h"] u show ?case by simp
qed

lemma cancel_simps:
  "blockers (cancel h) = []"
  "queue (cancel h) = queue h"
  "adapter (cancel h) = adapter h"
  "location (cancel h) = location h"
  "listeners (cancel h) = listeners h"
  "notified (cancel h) = notified h"
  by (simp_all add: cancel_def)

section \<open>The memory adapter under the core\<close>

lemma memory_opts_simps:
  "getLocation memory_opts = memory_getLocation"
  "listener memory_opts = None"
  "pushState memory_opts = memory_pushState"
  "replaceState memory_opts = memory_replaceState"
  "go memory_opts = memory_go"
  "backward memory_opts = memory_back"
  "forward memory_opts = memory_forward"
  by (simp_all add: memory_opts_def)

lemma memory_quiet: "quiet memory_opts"
  unfolding quiet_def
proof (intro allI)
  fix t :: "'a task" and s :: "'a memory"
  show "snd (perform memory_opts t s) = 0"
    by (cases t)
      (simp_all add: memory_opts_simps memory_pushState_def memory_replaceState_def
        memory_go_def memory_back_def memory_forward_def)
qed

lemma tryFlush_quiet:
  assumes "quiet opts" "listener opts = None" "blockers h = []"
  shows "tryFlush opts h =
           onUpdate opts (h\<lparr> queue := [], adapter := run opts (queue h) (adapter h) \<rparr>)"
  using assms by (simp add: tryFlush_open drain_quiet)

lemma queueTask_quiet:
  assumes "quiet opts" "listener opts = None" "blockers h = []" "queue h = []"
  shows "queueTask opts t h =
           onUpdate opts (h\<lparr> queue := [], adapter := fst (perform opts t (adapter h)) \<rparr>)"
proof -
  have "blockers (h\<lparr> queue := queue h @ [t] \<rparr>) = []" using assms by simp
  from tryFlush_quiet [OF assms(1,2) this] assms(4) show ?thesis
    by (simp add: queueTask_def run_Cons run_Nil)
qed

lemma memory_onUpdate:
  "arr_elems (entries (adapter h)) (index (adapter h)) = Some e \<Longrightarrow>
     onUpdate memory_opts h =
       (None, h\<lparr> location := parseLocation e (currentState (adapter h)),
                  notified := notified h @ listeners h \<rparr>)"
  "arr_elems (entries (adapter h)) (index (adapter h)) = None \<Longrightarrow>
     onUpdate memory_opts h = (Some TypeError, h)"
  by (simp_all add: onUpdate_def memory_opts_simps memory_getLocation_def)

lemma memory_created:
  assumes "k = (case initialIndex i of None \<Rightarrow> int (length (initialEntries i)) - 1 | Some j \<Rightarrow> j)"
    and "0 \<le> k" "k < int (length (initialEntries i))"
  shows "createMemoryHistory (Some i) =
     Inr \<lparr> location = parseLocation (initialEntries i ! nat k) (HState None None),
           unsub = (\<lambda>x. x), listeners = [], blockers = [], queue = [],
           adapter = memory_start i, notified = [], asked = [], unloadGuard = False \<rparr>"
proof -
  have "index (memory_start i :: 'a memory) = k"
    using assms(1) by (simp add: memory_start_def)
  moreover have "arr_elems (entries (memory_start i :: 'a memory)) k = Some (initialEntries i ! nat k)"
    using assms(2,3) by (simp add: memory_start_def array_of_def)
  moreover have "currentState (memory_start i :: 'a memory) = HState None None"
    by (simp add: memory_start_def)
  ultimately show ?thesis
    by (simp add: createMemoryHistory_def createHistory_def memory_opts_simps memory_getLocation_def)
qed

lemma memory_created_default:
  "createMemoryHistory None =
     Inr \<lparr> location = parseLocation ''/'' (HState None None),
           unsub = (\<lambda>x. x), listeners = [], blockers = [], queue = [],
           adapter = memory_start \<lparr> initialEntries = [''/''], initialIndex = None \<rparr>,
           notified = [], asked = [], unloadGuard = False \<rparr>"
proof -
  let ?i = "\<lparr> initialEntries = [''/''], initialIndex = None \<rparr>"
  have "createMemoryHistory None = createMemoryHistory (Some ?i)"
    by (simp add: createMemoryHistory_def)
  also have "\<dots> = Inr \<lparr> location = parseLocation (initialEntries ?i ! nat 0) (HState None None),
           unsub = (\<lambda>x. x), listeners = [], blockers = [], queue = [],
           adapter = memory_start ?i, notified = [], asked = [], unloadGuard = False \<rparr>"
    by (rule memory_created) simp_all
  finally show ?thesis by simp
qed

lemma memory_start_simps:
  "index (memory_start i) = (case initialIndex i of None \<Rightarrow> int (length (initialEntries i)) - 1 | Some j \<Rightarrow> j)"
  "arr_length (entries (memory_start i)) = length (initialEntries i)"
  "arr_elems (entries (memory_start i)) k =
     (if 0 \<le> k \<and> k < int (length (initialEntries i)) then Some (initialEntries i ! nat k) else None)"
  "currentState (memory_start i) = HState None None"
  "keysDrawn (memory_start i) = 0"
  "windowGo (memory_start i) = []"
  by (simp_all add: memory_start_def array_of_def)

lemma block_simps:
  "blockers (block b h) = blockers h @ [b]"
  "queue (block b h) = queue h"
  "adapter (block b h) = adapter h"
  "location (block b h) = location h"
  "listeners (block b h) = listeners h"
  "notified (block b h) = notified h"
  by (simp_all add: block_def Let_def)

lemma unblock_simps:
  "blockers (unblock b h) = filter (\<lambda>c. c \<noteq> b) (blockers h)"
  "queue (unblock b h) = queue h"
  "adapter (unblock b h) = adapter h"
  "location (unblock b h) = location h"
  "listeners (unblock b h) = listeners h"
  "notified (unblock b h) = notified h"
  by (simp_all add: unblock_def Let_def)

lemma memory_task:
  assumes "blockers h = []" "queue h = []"
  shows "arr_elems (entries (fst (perform memory_opts t (adapter h))))
             (index (fst (perform memory_opts t (adapter h)))) = Some e \<Longrightarrow>
         queueTask memory_opts t h =
           (None, h\<lparr> location := parseLocation e (currentState (fst (perform memory_opts t (adapter h)))),
                      queue := [], adapter := fst (perform memory_opts t (adapter h)),
                      notified := notified h @ listeners h \<rparr>)"
    and "arr_elems (entries (fst (perform memory_opts t (adapter h))))
             (index (fst (perform memory_opts t (adapter h)))) = None \<Longrightarrow>
         queueTask memory_opts t h =
           (Some TypeError, h\<lparr> queue := [], adapter := fst (perform memory_opts t (adapter h)) \<rparr>)"
  using assms
  by (simp_all add: queueTask_quiet [OF memory_quiet] memory_opts_simps memory_onUpdate)

lemma memory_pushState_simps:
  "arr_length (entries (fst (memory_pushState path st m))) = arr_length (entries m) + 1"
  "arr_elems (entries (fst (memory_pushState path st m))) =
     (arr_elems (entries m))(int (arr_length (entries m)) \<mapsto> path)"
  "index (fst (memory_pushState path st m)) = index m + 1"
  "currentState (fst (memory_pushState path st m)) = HState st (Some (keysDrawn m))"
  "keysDrawn (fst (memory_pushState path st m)) = keysDrawn m + 1"
  "windowGo (fst (memory_pushState path st m)) = windowGo m"
  by (simp_all add: memory_pushState_def array_push_def)

lemma memory_back_simps:
  "entries (fst (memory_back m)) = entries m"
  "index (fst (memory_back m)) = index m - 1"
  "currentState (fst (memory_back m)) = currentState m"
  by (simp_all add: memory_back_def)

lemma memory_forward_simps:
  "entries (fst (memory_forward m)) = entries m"
  "index (fst (memory_forward m)) = min (index m + 1) (int (arr_length (entries m)) - 1)"
  "currentState (fst (memory_forward m)) = currentState m"
  by (simp_all add: memory_forward_def)

lemma memory_go_simps:
  "fst (memory_go n m) = m\<lparr> windowGo := windowGo m @ [n] \<rparr>"
  "snd (memory_go n m) = 0"
  by (simp_all add: memory_go_def)

text \<open>
  \<open>in_step\<close> holds of a new history and, for an adapter without native events,
  after every operation that goes through the queue.
\<close>

lemma in_step_created: "createHistory opts s = Inr h \<Longrightarrow> in_step opts h"
  by (auto simp: createHistory_def in_step_def split: sum.splits)

lemma in_step_onUpdate: "in_step opts (snd (onUpdate opts h))"
  by (simp add: onUpdate_def in_step_def split: sum.splits)

lemma in_step_queueTask:
  assumes "quiet opts" "listener opts = None" "in_step opts h"
  shows "in_step opts (snd (queueTask opts t h))"
proof (cases "blockers h")
  case (Cons b bs)
  with assms(3) show ?thesis
    by (simp add: queueTask_blocked in_step_def split: sum.splits)
next
  case Nil
  then have "blockers (h\<lparr> queue := queue h @ [t] \<rparr>) = []" by simp
  from tryFlush_quiet [OF assms(1,2) this] show ?thesis
    by (simp add: queueTask_def in_step_onUpdate)
qed

lemma in_step_blockers:
  "in_step opts (block b h) = in_step opts h"
  "in_step opts (unblock b h) = in_step opts h"
  "in_step opts (cancel h) = in_step opts h"
  by (simp_all add: in_step_def block_simps unblock_simps cancel_def split: sum.splits)

section \<open>Listeners\<close>

lemma listen_simps:
  "listeners (listen opts cb h) =
     (if cb \<in> set (listeners h) then listeners h else listeners h @ [cb])"
  "queue (listen opts cb h) = queue h"
  "blockers (listen opts cb h) = blockers h"
  "location (listen opts cb h) = location h"
  "notified (listen opts cb h) = notified h"
  "adapter (listen opts cb h) =
     (if listeners h = []
      then (case listener opts of Some sub \<Rightarrow> fst (sub (adapter h)) | None \<Rightarrow> adapter h)
      else adapter h)"
  "unsub (listen opts cb h) =
     (if listeners h = []
      then (case listener opts of Some sub \<Rightarrow> snd (sub (adapter h)) | None \<Rightarrow> (\<lambda>x. x))
      else unsub h)"
  by (simp_all add: listen_def Let_def split: option.splits prod.splits)

lemma unsubscribe_simps:
  "listeners (unsubscribe cb h) = removeAll cb (listeners h)"
  "queue (unsubscribe cb h) = queue h"
  "blockers (unsubscribe cb h) = blockers h"
  "location (unsubscribe cb h) = location h"
  "notified (unsubscribe cb h) = notified h"
  "unsub (unsubscribe cb h) = unsub h"
  "adapter (unsubscribe cb h) =
     (if removeAll cb (listeners h) = [] then unsub h (adapter h) else adapter h)"
  by (simp_all add: unsubscribe_def Let_def)

lemma listeners_distinct:
  "distinct (listeners h) \<Longrightarrow> distinct (listeners (listen opts cb h))"
  "distinct (listeners h) \<Longrightarrow> distinct (listeners (unsubscribe cb h))"
  by (simp_all add: listen_simps unsubscribe_simps distinct_removeAll)

section \<open>The browser adapter under the core\<close>

lemma browser_opts_simps:
  "getLocation (browser_opts W arg) = browser_getLocation W arg"
  "listener (browser_opts W arg) = Some browser_listener"
  "pushState (browser_opts W arg) = browser_pushState W arg"
  "replaceState (browser_opts W arg) = browser_replaceState W arg"
  "go (browser_opts W arg) = (\<lambda>n b. (b\<lparr> window := native_go W n (window b) \<rparr>, 0))"
  "backward (browser_opts W arg) = (\<lambda>b. (b\<lparr> window := native_back W (window b) \<rparr>, 0))"
  "forward (browser_opts W arg) = (\<lambda>b. (b\<lparr> window := native_forward W (window b) \<rparr>, 0))"
  by (simp_all add: browser_opts_def)

lemma browser_onUpdate:
  "onUpdate (browser_opts W arg) h =
     (None, h\<lparr> location := parseLocation (getHref W arg (window (adapter h)))
                              (history_state W (window (adapter h))),
                notified := notified h @ listeners h \<rparr>)"
  by (simp add: onUpdate_def browser_opts_simps browser_getLocation_def)

lemma browser_created:
  "createBrowserHistory W arg b =
     Inr \<lparr> location = parseLocation (getHref W arg (window b)) (history_state W (window b)),
           unsub = (\<lambda>x. x), listeners = [], blockers = [], queue = [], adapter = b,
           notified = [], asked = [], unloadGuard = False \<rparr>"
  by (simp add: createBrowserHistory_def createHistory_def browser_opts_simps browser_getLocation_def)

lemma fire_once:
  "fire opts (Suc 0) h = onUpdate opts h"
  by (cases "onUpdate opts h") (auto split: option.splits)

lemma browser_push_subscribed:
  assumes "blockers h = []" "queue h = []" "pushStateFn (adapter h) = Wrapper Native"
  shows "history_push (browser_opts W arg) path st h =
           onUpdate (browser_opts W arg)
             (h\<lparr> queue := [], adapter := fst (browser_pushState W arg path st (adapter h)) \<rparr>)"
proof -
  let ?o = "browser_opts W arg"
  let ?h0 = "h\<lparr> queue := queue h @ [PushTask path st] \<rparr>"
  let ?h1 = "h\<lparr> queue := [], adapter := fst (browser_pushState W arg path st (adapter h)) \<rparr>"
  have n: "snd (browser_pushState W arg path st (adapter h)) = Suc 0"
    using assms(3) by (simp add: browser_pushState_def)
  have q: "queue ?h0 = [PushTask path st]" using assms(2) by simp
  obtain h2 where u: "onUpdate ?o ?h1 = (None, h2)"
    by (simp add: browser_onUpdate)
  then have "queue h2 = []"
    using onUpdate_frame(2) [of ?o ?h1] by simp
  then have "drain ?o h2 = (None, h2)"
    by (rule drain_Nil)
  with u n have "drain ?o ?h0 = (None, h2)"
    by (simp add: drain_Cons [OF q] browser_opts_simps fire_once)
  with assms(1) u show ?thesis
    by (simp add: history_push_def queueTask_def tryFlush_open browser_opts_simps)
qed

lemma drain_silent:
  "calls opts (queue h) (adapter h) = 0 \<Longrightarrow>
     drain opts h = (None, h\<lparr> queue := [], adapter := run opts (queue h) (adapter h) \<rparr>)"
proof (induction "queue h" arbitrary: h)
  case Nil
  then show ?case by (simp add: drain_Nil run_Nil)
next
  case (Cons t ts)
  let ?h1 = "h\<lparr> queue := ts, adapter := fst (perform opts t (adapter h)) \<rparr>"
  from Cons(2) have q: "queue h = t # ts" by simp
  with Cons.prems have z: "snd (perform opts t (adapter h)) = 0"
    "calls opts (queue ?h1) (adapter ?h1) = 0"
    by simp_all
  from q z(1) have "drain opts h = drain opts ?h1" by (simp add: drain_Cons)
  with Cons(1) [of ?h1] z(2) q show ?case by (simp add: run_Cons)
qed

lemma browser_replace_subscribed:
  assumes "blockers h = []" "queue h = []" "replaceStateFn (adapter h) = Wrapper Native"
  shows "history_replace (browser_opts W arg) path st h =
           onUpdate (browser_opts W arg)
             (h\<lparr> queue := [], adapter := fst (browser_replaceState W arg path st (adapter h)) \<rparr>)"
proof -
  let ?o = "browser_opts W arg"
  let ?h0 = "h\<lparr> queue := queue h @ [ReplaceTask path st] \<rparr>"
  let ?h1 = "h\<lparr> queue := [], adapter := fst (browser_replaceState W arg path st (adapter h)) \<rparr>"
  have n: "snd (browser_replaceState W arg path st (adapter h)) = Suc 0"
    using assms(3) by (simp add: browser_replaceState_def)
  have q: "queue ?h0 = [ReplaceTask path st]" using assms(2) by simp
  obtain h2 where u: "onUpdate ?o ?h1 = (None, h2)"
    by (simp add: browser_onUpdate)
  then have "queue h2 = []"
    using onUpdate_frame(2) [of ?o ?h1] by simp
  then have "drain ?o h2 = (None, h2)"
    by (rule drain_Nil)
  with u n have "drain ?o ?h0 = (None, h2)"
    by (simp add: drain_Cons [OF q] browser_opts_simps fire_once)
  with assms(1) u show ?thesis
    by (simp add: history_replace_def queueTask_def tryFlush_open browser_opts_simps)
qed

lemma browser_in_step_onUpdate:
  "getLocation (browser_opts W arg) (adapter (snd (onUpdate (browser_opts W arg) h)))
     = Inr (location (snd (onUpdate (browser_opts W arg) h)))"
  by (simp add: browser_onUpdate browser_opts_simps browser_getLocation_def)

lemma getHref_tab:
  assumes "indexOf u CHR ''#'' \<noteq> 0" "indexOf u CHR ''?'' \<noteq> 0"
  shows "getHref tab_platform \<lparr> arg_getHref = None, arg_createHref = None \<rparr>
           \<lparr> tab_url = u, tab_state = s \<rparr> = u"
  using parseLocation_concat [OF assms, of s]
  by (simp add: getHref_def tab_platform_def)

lemma tab_platform_simps:
  "history_state tab_platform = tab_state"
  "native_pushState tab_platform = (\<lambda>st url w. \<lparr> tab_url = url, tab_state = st \<rparr>)"
  "native_replaceState tab_platform = (\<lambda>st url w. \<lparr> tab_url = url, tab_state = st \<rparr>)"
  by (simp_all add: tab_platform_def)

section \<open>Subscribing and unsubscribing\<close>

lemma listen_more:
  assumes "listeners h \<noteq> []" "distinct (listeners h @ cs)"
  shows "listeners (foldl (\<lambda>x c. listen opts c x) h cs) = listeners h @ cs \<and>
         adapter (foldl (\<lambda>x c. listen opts c x) h cs) = adapter h \<and>
         unsub (foldl (\<lambda>x c. listen opts c x) h cs) = unsub h"
  using assms
proof (induction cs arbitrary: h)
  case Nil
  show ?case by simp
next
  case (Cons c cs)
  let ?h1 = "listen opts c h"
  from Cons.prems have 1: "listeners ?h1 = listeners h @ [c]" "adapter ?h1 = adapter h"
    "unsub ?h1 = unsub h"
    by (simp_all add: listen_simps)
  with Cons.prems have "listeners ?h1 \<noteq> []" "distinct (listeners ?h1 @ cs)"
    by simp_all
  from Cons.IH [OF this] 1 show ?case by simp
qed

lemma listen_all:
  assumes "listeners h = []" "distinct cbs" "cbs \<noteq> []" "listener opts = Some sub"
  shows "listeners (foldl (\<lambda>x c. listen opts c x) h cbs) = cbs \<and>
         adapter (foldl (\<lambda>x c. listen opts c x) h cbs) = fst (sub (adapter h)) \<and>
         unsub (foldl (\<lambda>x c. listen opts c x) h cbs) = snd (sub (adapter h))"
proof -
  from assms(3) obtain c cs where c: "cbs = c # cs" by (cases cbs) simp_all
  let ?h1 = "listen opts c h"
  from assms(1,4) have 1: "listeners ?h1 = [c]" "adapter ?h1 = fst (sub (adapter h))"
    "unsub ?h1 = snd (sub (adapter h))"
    by (simp_all add: listen_simps)
  with assms(2) c have "listeners ?h1 \<noteq> []" "distinct (listeners ?h1 @ cs)"
    by simp_all
  from listen_more [OF this, of opts] 1 c show ?thesis by simp
qed

lemma removeAll_as_filter: "removeAll d xs = filter (\<lambda>c. c \<noteq> d) xs"
  by (induction xs) auto

lemma filter_after_removal:
  "filter (\<lambda>c. c \<notin> set ds) (filter (\<lambda>c. c \<noteq> d) xs) = filter (\<lambda>c. c \<notin> set (d # ds)) xs"
  by (induction xs) auto

lemma unsubscribe_some:
  assumes "distinct ds" "set ds \<subseteq> set (listeners h)" "listeners h \<noteq> []"
  shows "listeners (foldl (\<lambda>x c. unsubscribe c x) h ds) = filter (\<lambda>c. c \<notin> set ds) (listeners h) \<and>
         unsub (foldl (\<lambda>x c. unsubscribe c x) h ds) = unsub h \<and>
         adapter (foldl (\<lambda>x c. unsubscribe c x) h ds) =
           (if set (listeners h) \<subseteq> set ds then unsub h (adapter h) else adapter h)"
  using assms
proof (induction ds arbitrary: h)
  case Nil
  then show ?case by simp
next
  case (Cons d ds)
  let ?h1 = "unsubscribe d h"
  have f: "removeAll d (listeners h) = filter (\<lambda>c. c \<noteq> d) (listeners h)"
    by (rule removeAll_as_filter)
  have 1: "listeners ?h1 = filter (\<lambda>c. c \<noteq> d) (listeners h)" "unsub ?h1 = unsub h"
    by (simp_all add: unsubscribe_simps f)
  have ff: "filter (\<lambda>c. c \<notin> set ds) (filter (\<lambda>c. c \<noteq> d) (listeners h))
      = filter (\<lambda>c. c \<notin> set (d # ds)) (listeners h)"
    by (rule filter_after_removal)
  show ?case
  proof (cases "filter (\<lambda>c. c \<noteq> d) (listeners h) = []")
    case True
    then have sub: "set (listeners h) \<subseteq> {d}"
      by (auto simp: filter_empty_conv)
    with Cons.prems have "ds = []"
      by (cases ds) auto
    moreover from True have "adapter ?h1 = unsub h (adapter h)"
      by (simp add: unsubscribe_simps f)
    ultimately show ?thesis
      using True sub 1 by simp
  next
    case False
    then have a: "adapter ?h1 = adapter h"
      by (simp add: unsubscribe_simps f)
    from Cons.prems have p: "distinct ds" "set ds \<subseteq> set (listeners ?h1)"
      by (auto simp: 1)
    from False have n: "listeners ?h1 \<noteq> []" by (simp add: 1)
    have s: "(set (listeners ?h1) \<subseteq> set ds) = (set (listeners h) \<subseteq> set (d # ds))"
      by (auto simp: 1)
    let ?H = "foldl (\<lambda>x c. unsubscribe c x) ?h1 ds"
    from Cons.IH [OF p n] have ih: "listeners ?H = filter (\<lambda>c. c \<notin> set ds) (listeners ?h1)"
      "unsub ?H = unsub ?h1"
      "adapter ?H = (if set (listeners ?h1) \<subseteq> set ds then unsub ?h1 (adapter ?h1) else adapter ?h1)"
      by blast+
    have l: "listeners ?H = filter (\<lambda>c. c \<notin> set (d # ds)) (listeners h)"
      by (simp only: ih(1) 1(1) ff)
    have u: "unsub ?H = unsub h"
      by (simp only: ih(2) 1(2))
    have ad: "adapter ?H =
        (if set (listeners h) \<subseteq> set (d # ds) then unsub h (adapter h) else adapter h)"
      by (simp only: ih(3) s 1(2) a)
    have "foldl (\<lambda>x c. unsubscribe c x) h (d # ds) = ?H"
      by simp
    with l u ad show ?thesis
      by (simp only:)
  qed
qed

lemma unsubscribe_all:
  assumes "distinct ds" "set ds = set (listeners h)" "listeners h \<noteq> []"
  shows "listeners (foldl (\<lambda>x c. unsubscribe c x) h ds) = [] \<and>
         unsub (foldl (\<lambda>x c. unsubscribe c x) h ds) = unsub h \<and>
         adapter (foldl (\<lambda>x c. unsubscribe c x) h ds) = unsub h (adapter h)"
proof -
  from assms(2) have "set ds \<subseteq> set (listeners h)" by simp
  from unsubscribe_some [OF assms(1) this assms(3)] assms(2) show ?thesis
    by (simp add: filter_empty_conv)
qed

lemma unsubscribe_twice: "listeners (unsubscribe c (unsubscribe c h)) = listeners (unsubscribe c h)"
  by (simp add: unsubscribe_simps)

text \<open>The subscription of the browser adapter.\<close>

lemma browser_listener_simps:
  "snd (browser_listener b) = teardown (pushStateFn b) (replaceStateFn b)"
  "onPopstate (fst (browser_listener b))"
  "onPushstate (fst (browser_listener b))"
  "pushStateFn (fst (browser_listener b)) = Wrapper (pushStateFn b)"
  "replaceStateFn (fst (browser_listener b)) = Wrapper (replaceStateFn b)"
  "domCalls (fst (browser_listener b)) =
     domCalls b @ [AddEventListener ''pushstate'', AddEventListener ''popstate'']"
  "window (fst (browser_listener b)) = window b"
  by (simp_all add: browser_listener_def teardown_def fun_eq_iff)

lemma teardown_simps:
  "\<not> onPopstate (teardown ps rs b)"
  "\<not> onPushstate (teardown ps rs b)"
  "pushStateFn (teardown ps rs b) = ps"
  "replaceStateFn (teardown ps rs b) = rs"
  "domCalls (teardown ps rs b) =
     domCalls b @ [RemoveEventListener ''pushstate'', RemoveEventListener ''popstate'']"
  "window (teardown ps rs b) = window b"
  by (simp_all add: teardown_def)

lemma subscription_inv_created:
  "\<not> onPopstate b \<Longrightarrow> subscription_inv (projr (createBrowserHistory W arg b))"
  by (simp add: subscription_inv_def browser_created)

lemma subscription_inv_listen:
  assumes "subscription_inv h"
  shows "subscription_inv (listen (browser_opts W arg) cb h)"
proof (cases "listeners h = []")
  case True
  then show ?thesis
    by (auto simp: subscription_inv_def listen_simps browser_opts_simps browser_listener_simps)
next
  case False
  with assms show ?thesis
    by (auto simp: subscription_inv_def listen_simps)
qed

lemma subscription_inv_unsubscribe:
  assumes "subscription_inv h"
  shows "subscription_inv (unsubscribe cb h)"
proof (cases "removeAll cb (listeners h) = []")
  case True
  from assms consider (fresh) "listeners h = []" "unsub h = (\<lambda>x. x)" "\<not> onPopstate (adapter h)"
    | (torn) ps rs where "unsub h = teardown ps rs"
    by (auto simp: subscription_inv_def)
  then show ?thesis
  proof cases
    case fresh
    then show ?thesis
      by (simp add: subscription_inv_def unsubscribe_simps)
  next
    case torn
    with True show ?thesis
      by (auto simp: subscription_inv_def unsubscribe_simps teardown_simps)
  qed
next
  case False
  then have "listeners h \<noteq> []" by auto
  with assms False show ?thesis
    by (auto simp: subscription_inv_def unsubscribe_simps)
qed

lemma subscription_inv_ops:
  "subscription_inv h \<Longrightarrow> subscription_inv (foldl (apply_sub_op (browser_opts W arg)) h ops)"
proof (induction ops arbitrary: h)
  case Nil
  then show ?case by simp
next
  case (Cons op ops)
  have "subscription_inv (apply_sub_op (browser_opts W arg) h op)"
    using Cons.prems
    by (cases op) (simp_all add: subscription_inv_listen subscription_inv_unsubscribe)
  from Cons.IH [OF this] show ?case by simp
qed


section \<open>Cancelling a blocked navigation\<close>

text \<open>
  Claim C4: with a blocker installed and \<^verbatim>\<open>push(A)\<close> issued, the \<^verbatim>\<open>cancel\<close>
  continuation leaves the blocker list empty, the location and the adapter as they
  were before the push, and the queue as the push left it (the task for \<open>A\<close> is
  still its last element: neither run nor dropped); a second \<^verbatim>\<open>cancel\<close> changes
  nothing.
\<close>

theorem cancel_keeps_queue:
  assumes "blockers h \<noteq> []"
  shows "blockers (cancel (snd (history_push opts A st h))) = [] \<and>
         location (cancel (snd (history_push opts A st h))) = location h \<and>
         adapter (cancel (snd (history_push opts A st h))) = adapter h \<and>
         queue (snd (history_push opts A st h)) = queue h @ [PushTask A st] \<and>
         queue (cancel (snd (history_push opts A st h))) = queue (snd (history_push opts A st h)) \<and>
         cancel (cancel (snd (history_push opts A st h))) = cancel (snd (history_push opts A st h))"
proof -
  from assms obtain b bs where "blockers h = b # bs"
    by (cases "blockers h") simp_all
  then have "snd (history_push opts A st h) =
      h\<lparr> queue := queue h @ [PushTask A st], asked := asked h @ [b] \<rparr>"
    by (simp add: history_push_def queueTask_blocked)
  then show ?thesis
    by (simp add: cancel_def)
qed

text \<open>
  The hypothesis holds of the default memory history after \<^verbatim>\<open>block\<close>: there
  \<^verbatim>\<open>push('/a')\<close> followed by \<^verbatim>\<open>cancel\<close> leaves the blocker list empty, the push on
  the queue and the location at \<open>/\<close>.
\<close>

theorem cancel_keeps_queue_witness:
  "blockers (block 1 (projr (createMemoryHistory None)) :: (unit memory, unit) history) \<noteq> [] \<and>
   blockers (cancel (snd (history_push memory_opts ''/a'' None
      (block 1 (projr (createMemoryHistory None)) :: (unit memory, unit) history)))) = [] \<and>
   queue (cancel (snd (history_push memory_opts ''/a'' None
      (block 1 (projr (createMemoryHistory None)) :: (unit memory, unit) history)))) = [PushTask ''/a'' None] \<and>
   href (location (cancel (snd (history_push memory_opts ''/a'' None
      (block 1 (projr (createMemoryHistory None)) :: (unit memory, unit) history))))) = ''/''"
proof -
  let ?h = "block 1 (projr (createMemoryHistory None)) :: (unit memory, unit) history"
  have b: "blockers ?h \<noteq> []"
    by (simp add: block_simps)
  have q: "queue ?h = []" "location ?h = parseLocation ''/'' (HState None None)"
    by (simp_all add: block_simps memory_created_default)
  from cancel_keeps_queue [OF b, of memory_opts "''/a''" None] b q show ?thesis
    by (simp add: parseLocation_href)
qed

section \<open>Blocking a navigation\<close>




section \<open>The cursor of the memory adapter\<close>

text \<open>
  Claim C3: \<^verbatim>\<open>back\<close> and \<^verbatim>\<open>forward\<close> of a memory history move the cursor by one,
  both clamped to the valid range. \<^verbatim>\<open>forward\<close> is clamped
  (\<^verbatim>\<open>Math.min(index + 1, entries.length - 1)\<close>); \<^verbatim>\<open>back\<close> is \<^verbatim>\<open>index--\<close> with no
  bound. With the entries \<open>/a\<close>, \<open>/b\<close> and the cursor on 1: the location is \<open>/b\<close>,
  \<^verbatim>\<open>back\<close> gives \<open>/a\<close>, a \<^verbatim>\<open>forward\<close> after it gives \<open>/b\<close>, \<^verbatim>\<open>forward\<close> on the last
  index keeps the cursor on 1; but a second \<^verbatim>\<open>back\<close> puts the cursor on \<open>-1\<close>, where
  \<^verbatim>\<open>entries[index]\<close> is \<^verbatim>\<open>undefined\<close>: that call raises the \<^verbatim>\<open>TypeError\<close> of
  \<^verbatim>\<open>parseLocation\<close> and every later \<^verbatim>\<open>getLocation\<close> raises it too.
\<close>

theorem memory_back_not_clamped:
  "href (location (projr (createMemoryHistory
      (Some \<lparr> initialEntries = [''/a'', ''/b''], initialIndex = Some 1 \<rparr>))
        :: (unit memory, unit) history)) = ''/b'' \<and>
   href (location (snd (history_back memory_opts (projr (createMemoryHistory
      (Some \<lparr> initialEntries = [''/a'', ''/b''], initialIndex = Some 1 \<rparr>))
        :: (unit memory, unit) history)))) = ''/a'' \<and>
   href (location (snd (history_forward memory_opts (snd (history_back memory_opts
      (projr (createMemoryHistory
      (Some \<lparr> initialEntries = [''/a'', ''/b''], initialIndex = Some 1 \<rparr>))
        :: (unit memory, unit) history)))))) = ''/b'' \<and>
   index (adapter (snd (history_forward memory_opts (projr (createMemoryHistory
      (Some \<lparr> initialEntries = [''/a'', ''/b''], initialIndex = Some 1 \<rparr>))
        :: (unit memory, unit) history)))) = 1 \<and>
   index (adapter (snd (history_back memory_opts (snd (history_back memory_opts
      (projr (createMemoryHistory
      (Some \<lparr> initialEntries = [''/a'', ''/b''], initialIndex = Some 1 \<rparr>))
        :: (unit memory, unit) history)))))) = - 1 \<and>
   fst (history_back memory_opts (snd (history_back memory_opts
      (projr (createMemoryHistory
      (Some \<lparr> initialEntries = [''/a'', ''/b''], initialIndex = Some 1 \<rparr>))
        :: (unit memory, unit) history)))) = Some TypeError \<and>
   memory_getLocation (adapter (snd (history_back memory_opts (snd (history_back memory_opts
      (projr (createMemoryHistory
      (Some \<lparr> initialEntries = [''/a'', ''/b''], initialIndex = Some 1 \<rparr>))
        :: (unit memory, unit) history)))))) = Inl TypeError"
proof -
  let ?i = "\<lparr> initialEntries = [''/a'', ''/b''], initialIndex = Some 1 \<rparr>"
  let ?m = "memory_start ?i :: unit memory"
  let ?h = "projr (createMemoryHistory (Some ?i)) :: (unit memory, unit) history"
  let ?e = "HState None None :: unit hstate"
  have c: "createMemoryHistory (Some ?i) =
     Inr \<lparr> location = parseLocation (initialEntries ?i ! nat 1) ?e,
           unsub = (\<lambda>x. x), listeners = [], blockers = [], queue = [],
           adapter = ?m, notified = [], asked = [], unloadGuard = False \<rparr>"
    by (rule memory_created) simp_all
  have h: "blockers ?h = []" "queue ?h = []" "adapter ?h = ?m"
    "location ?h = parseLocation ''/b'' ?e" "listeners ?h = []" "notified ?h = []"
    by (simp_all add: c)
  have m: "index ?m = 1" "currentState ?m = ?e"
    "arr_length (entries ?m) = 2"
    "arr_elems (entries ?m) 0 = Some ''/a''" "arr_elems (entries ?m) 1 = Some ''/b''"
    "arr_elems (entries ?m) (- 1) = None"
    by (simp_all add: memory_start_simps)
  (* back from index 1 *)
  let ?mb = "fst (memory_back ?m)"
  have mb: "index ?mb = 0" "entries ?mb = entries ?m" "currentState ?mb = ?e"
    by (simp_all add: memory_back_simps m)
  let ?hb = "?h\<lparr> location := parseLocation ''/a'' ?e, queue := [], adapter := ?mb,
                   notified := [] \<rparr>"
  have b: "history_back memory_opts ?h = (None, ?hb)"
    unfolding history_back_def
    using memory_task(1) [OF h(1,2), of BackTask "''/a''"] by (simp add: memory_opts_simps h mb m)
  have hb: "blockers ?hb = []" "queue ?hb = []" "adapter ?hb = ?mb"
    by (simp_all add: h)
  (* forward again *)
  let ?mf = "fst (memory_forward ?mb)"
  have mf: "index ?mf = 1" "entries ?mf = entries ?m" "currentState ?mf = ?e"
    by (simp_all add: memory_forward_simps memory_back_simps m)
  have f: "history_forward memory_opts ?hb =
      (None, ?hb\<lparr> location := parseLocation ''/b'' ?e, queue := [], adapter := ?mf,
                   notified := notified ?hb @ listeners ?hb \<rparr>)"
    unfolding history_forward_def
    using memory_task(1) [OF hb(1,2), of ForwardTask "''/b''"] by (simp add: memory_opts_simps hb mf m)
  (* forward at the last index *)
  let ?ml = "fst (memory_forward ?m)"
  have ml: "index ?ml = 1" "entries ?ml = entries ?m" "currentState ?ml = ?e"
    by (simp_all add: memory_forward_simps m)
  have l: "history_forward memory_opts ?h =
      (None, ?h\<lparr> location := parseLocation ''/b'' ?e, queue := [], adapter := ?ml,
                  notified := notified ?h @ listeners ?h \<rparr>)"
    unfolding history_forward_def
    using memory_task(1) [OF h(1,2), of ForwardTask "''/b''"] by (simp add: memory_opts_simps h ml m)
  (* back at index 0 *)
  let ?mz = "fst (memory_back ?mb)"
  have mz: "index ?mz = - 1" "entries ?mz = entries ?m"
    by (simp_all add: memory_back_simps m)
  have z: "history_back memory_opts ?hb = (Some TypeError, ?hb\<lparr> queue := [], adapter := ?mz \<rparr>)"
    unfolding history_back_def
    using memory_task(2) [OF hb(1,2), of BackTask] by (simp add: memory_opts_simps hb mz m)
  have g: "memory_getLocation ?mz = Inl TypeError"
    by (simp add: memory_getLocation_def mz m)
  show ?thesis
    by (simp add: h b f l z g mz ml parseLocation_href)
qed

section \<open>Pushing onto the memory adapter\<close>

text \<open>
  Claim C9, amended: on a memory history with no blocker installed and an empty
  task queue, \<^verbatim>\<open>push(path, state)\<close> writes \<open>path\<close> at the end of the entry array,
  leaves every other entry as it was (nothing after the cursor is removed) and moves
  the cursor by exactly one. With the cursor on the last entry the new href is
  \<open>path\<close>. Otherwise the cursor lands on the entry that already followed it and the
  href is that entry; it is the pushed path exactly when that entry is the same
  string.
\<close>

theorem memory_push_moves_cursor_by_one:
  fixes h :: "('p memory, 'p) history"
  assumes "blockers h = []" "queue h = []"
  shows "arr_length (entries (adapter (snd (history_push memory_opts path st h))))
           = arr_length (entries (adapter h)) + 1 \<and>
         arr_elems (entries (adapter (snd (history_push memory_opts path st h))))
           (int (arr_length (entries (adapter h)))) = Some path \<and>
         (\<forall>i. i \<noteq> int (arr_length (entries (adapter h))) \<longrightarrow>
            arr_elems (entries (adapter (snd (history_push memory_opts path st h)))) i
              = arr_elems (entries (adapter h)) i) \<and>
         index (adapter (snd (history_push memory_opts path st h))) = index (adapter h) + 1 \<and>
         (index (adapter h) = int (arr_length (entries (adapter h))) - 1 \<longrightarrow>
            href (location (snd (history_push memory_opts path st h))) = path) \<and>
         (\<forall>e. index (adapter h) \<noteq> int (arr_length (entries (adapter h))) - 1 \<and>
              arr_elems (entries (adapter h)) (index (adapter h) + 1) = Some e \<longrightarrow>
            href (location (snd (history_push memory_opts path st h))) = e \<and>
            (href (location (snd (history_push memory_opts path st h))) = path) = (e = path))"
proof -
  let ?m = "adapter h"
  let ?m' = "fst (memory_pushState path st ?m)"
  let ?n = "int (arr_length (entries ?m))"
  let ?h' = "snd (history_push memory_opts path st h)"
  have a: "adapter ?h' = ?m'"
    using queueTask_single [OF assms, of memory_opts "PushTask path st"]
    by (simp add: history_push_def memory_opts_simps)
  have last: "href (location ?h') = path" if "index ?m = ?n - 1"
  proof -
    from that have "arr_elems (entries ?m') (index ?m') = Some path"
      by (simp add: memory_pushState_simps)
    with memory_task(1) [OF assms, of "PushTask path st" path] show ?thesis
      by (simp add: history_push_def memory_opts_simps parseLocation_href)
  qed
  have older: "href (location ?h') = e"
    if "index ?m \<noteq> ?n - 1" "arr_elems (entries ?m) (index ?m + 1) = Some e" for e
  proof -
    from that have "arr_elems (entries ?m') (index ?m') = Some e"
      by (simp add: memory_pushState_simps)
    with memory_task(1) [OF assms, of "PushTask path st" e] show ?thesis
      by (simp add: history_push_def memory_opts_simps parseLocation_href)
  qed
  from last older show ?thesis
    by (simp add: a memory_pushState_simps)
qed

text \<open>
  For the entries \<open>/a\<close>, \<open>/b\<close> with the cursor on 0, \<^verbatim>\<open>push('/c')\<close> puts \<open>/c\<close> at
  index 2, keeps \<open>/b\<close> at index 1 and moves the cursor to 1: the location is \<open>/b\<close>.
\<close>

theorem memory_push_moves_cursor_by_one_witness:
  "blockers (projr (createMemoryHistory
      (Some \<lparr> initialEntries = [''/a'', ''/b''], initialIndex = Some 0 \<rparr>))
        :: (unit memory, unit) history) = [] \<and>
   queue (projr (createMemoryHistory
      (Some \<lparr> initialEntries = [''/a'', ''/b''], initialIndex = Some 0 \<rparr>))
        :: (unit memory, unit) history) = [] \<and>
   index (adapter (snd (history_push memory_opts ''/c'' None (projr (createMemoryHistory
      (Some \<lparr> initialEntries = [''/a'', ''/b''], initialIndex = Some 0 \<rparr>))
        :: (unit memory, unit) history)))) = 1 \<and>
   arr_elems (entries (adapter (snd (history_push memory_opts ''/c'' None (projr (createMemoryHistory
      (Some \<lparr> initialEntries = [''/a'', ''/b''], initialIndex = Some 0 \<rparr>))
        :: (unit memory, unit) history))))) 2 = Some ''/c'' \<and>
   arr_elems (entries (adapter (snd (history_push memory_opts ''/c'' None (projr (createMemoryHistory
      (Some \<lparr> initialEntries = [''/a'', ''/b''], initialIndex = Some 0 \<rparr>))
        :: (unit memory, unit) history))))) 1 = Some ''/b'' \<and>
   href (location (snd (history_push memory_opts ''/c'' None (projr (createMemoryHistory
      (Some \<lparr> initialEntries = [''/a'', ''/b''], initialIndex = Some 0 \<rparr>))
        :: (unit memory, unit) history)))) = ''/b''"
proof -
  let ?i = "\<lparr> initialEntries = [''/a'', ''/b''], initialIndex = Some 0 \<rparr>"
  let ?h = "projr (createMemoryHistory (Some ?i)) :: (unit memory, unit) history"
  let ?h' = "snd (history_push memory_opts ''/c'' None ?h)"
  have c: "createMemoryHistory (Some ?i) =
     Inr \<lparr> location = parseLocation (initialEntries ?i ! nat 0) (HState None None :: unit hstate),
           unsub = (\<lambda>x. x), listeners = [], blockers = [], queue = [],
           adapter = memory_start ?i, notified = [], asked = [], unloadGuard = False \<rparr>"
    by (rule memory_created) simp_all
  have b: "blockers ?h = []" and q: "queue ?h = []"
    and m: "index (adapter ?h) = 0" "arr_length (entries (adapter ?h)) = 2"
      "arr_elems (entries (adapter ?h)) 1 = Some ''/b''"
    by (simp_all add: c memory_start_simps)
  note t = memory_push_moves_cursor_by_one [OF b q, of "''/c''" None]
  from t m have 1: "index (adapter ?h') = 1"
    by simp
  from t m have 2: "arr_elems (entries (adapter ?h')) 2 = Some ''/c''"
    by simp
  from t have "\<forall>i. i \<noteq> int (arr_length (entries (adapter ?h))) \<longrightarrow>
      arr_elems (entries (adapter ?h')) i = arr_elems (entries (adapter ?h)) i"
    by blast
  with m have 3: "arr_elems (entries (adapter ?h')) 1 = Some ''/b''"
    by simp
  from t have "\<forall>e. index (adapter ?h) \<noteq> int (arr_length (entries (adapter ?h))) - 1 \<and>
      arr_elems (entries (adapter ?h)) (index (adapter ?h) + 1) = Some e \<longrightarrow>
      href (location ?h') = e \<and> (href (location ?h') = ''/c'') = (e = ''/c'')"
    by blast
  with m have 4: "href (location ?h') = ''/b''"
    by simp
  from b q 1 2 3 4 show ?thesis
    by blast
qed

text \<open>
  The claim's \<open>only when\<close> fails where the entry after the cursor is the pushed
  path: for the entries \<open>/a\<close>, \<open>/b\<close> with the cursor on 0, \<^verbatim>\<open>push('/b')\<close> gives the
  href \<open>/b\<close>, the pushed path, although the cursor was not on the last entry.
\<close>

theorem memory_push_equal_entry_counterexample:
  "href (location (snd (history_push memory_opts ''/b'' None (projr (createMemoryHistory
      (Some \<lparr> initialEntries = [''/a'', ''/b''], initialIndex = Some 0 \<rparr>))
        :: (unit memory, unit) history)))) = ''/b'' \<and>
   index (adapter (projr (createMemoryHistory
      (Some \<lparr> initialEntries = [''/a'', ''/b''], initialIndex = Some 0 \<rparr>))
        :: (unit memory, unit) history)) \<noteq>
   int (arr_length (entries (adapter (projr (createMemoryHistory
      (Some \<lparr> initialEntries = [''/a'', ''/b''], initialIndex = Some 0 \<rparr>))
        :: (unit memory, unit) history)))) - 1"
proof -
  let ?i = "\<lparr> initialEntries = [''/a'', ''/b''], initialIndex = Some 0 \<rparr>"
  let ?h = "projr (createMemoryHistory (Some ?i)) :: (unit memory, unit) history"
  let ?m' = "fst (memory_pushState ''/b'' None (adapter ?h))"
  have c: "createMemoryHistory (Some ?i) =
     Inr \<lparr> location = parseLocation (initialEntries ?i ! nat 0) (HState None None :: unit hstate),
           unsub = (\<lambda>x. x), listeners = [], blockers = [], queue = [],
           adapter = memory_start ?i, notified = [], asked = [], unloadGuard = False \<rparr>"
    by (rule memory_created) simp_all
  have b: "blockers ?h = []" and q: "queue ?h = []"
    and m: "index (adapter ?h) = 0" "arr_length (entries (adapter ?h)) = 2"
      "arr_elems (entries (adapter ?h)) 1 = Some ''/b''"
    by (simp_all add: c memory_start_simps)
  have "arr_elems (entries ?m') (index ?m') = Some ''/b''"
    by (simp add: memory_pushState_simps m)
  with memory_task(1) [OF b q, of "PushTask ''/b'' None" "''/b''"]
  have "href (location (snd (history_push memory_opts ''/b'' None ?h))) = ''/b''"
    by (simp add: history_push_def memory_opts_simps parseLocation_href)
  with m show ?thesis
    by simp
qed

section \<open>\<^verbatim>\<open>go\<close> on the memory adapter\<close>

text \<open>
  Claim C10, amended: the memory adapter's \<^verbatim>\<open>go(n)\<close> only calls
  \<^verbatim>\<open>window.history.go(n)\<close>: the adapter state after it differs in the list of those
  calls alone. Through the history object, on a history with an empty task queue
  whose location is in step with the adapter, \<^verbatim>\<open>go(n)\<close> leaves the entry array, the
  cursor, the current state and the location unchanged for every \<open>n\<close>; the call
  reaches the platform at once when no blocker is installed and stays on the queue
  otherwise. (With tasks left on the queue the flush that \<^verbatim>\<open>go(n)\<close> starts runs
  them first, and they do change the in-memory state.)
\<close>

theorem memory_go_leaves_entries_and_cursor:
  fixes h :: "('p memory, 'p) history"
  assumes "queue h = []" "in_step memory_opts h"
  shows "fst (memory_go n m) = m\<lparr> windowGo := windowGo m @ [n] \<rparr> \<and>
         entries (adapter (snd (history_go memory_opts n h))) = entries (adapter h) \<and>
         index (adapter (snd (history_go memory_opts n h))) = index (adapter h) \<and>
         currentState (adapter (snd (history_go memory_opts n h))) = currentState (adapter h) \<and>
         location (snd (history_go memory_opts n h)) = location h \<and>
         windowGo (adapter (snd (history_go memory_opts n h))) =
           windowGo (adapter h) @ (if blockers h = [] then [n] else [])"
proof (cases "blockers h")
  case (Cons b bs)
  then show ?thesis
    by (simp add: history_go_def queueTask_blocked memory_go_simps)
next
  case Nil
  let ?m' = "(adapter h)\<lparr> windowGo := windowGo (adapter h) @ [n] \<rparr>"
  let ?h1 = "h\<lparr> queue := [], adapter := ?m' \<rparr>"
  have g: "history_go memory_opts n h = onUpdate memory_opts ?h1"
    using queueTask_quiet [OF memory_quiet _ Nil assms(1), of "GoTask n"]
    by (simp add: history_go_def memory_opts_simps memory_go_simps)
  have l: "memory_getLocation ?m' = memory_getLocation (adapter h)"
    by (simp add: memory_getLocation_def split: option.splits)
  have "location (snd (onUpdate memory_opts ?h1)) = location h"
    using assms(2) l
    by (simp add: onUpdate_def in_step_def memory_opts_simps split: sum.splits)
  moreover have "adapter (snd (onUpdate memory_opts ?h1)) = ?m'"
    by (simp add: onUpdate_frame)
  ultimately show ?thesis
    using Nil by (simp add: g memory_go_simps)
qed

text \<open>
  The default memory history has nothing pending and is in step; \<^verbatim>\<open>go(-1)\<close> leaves
  its entries, its cursor (0) and its location (\<open>/\<close>) and hands \<open>-1\<close> to
  \<^verbatim>\<open>window.history.go\<close>.
\<close>

theorem memory_go_leaves_entries_and_cursor_witness:
  "queue (projr (createMemoryHistory None) :: (unit memory, unit) history) = [] \<and>
   in_step memory_opts (projr (createMemoryHistory None) :: (unit memory, unit) history) \<and>
   entries (adapter (snd (history_go memory_opts (- 1)
       (projr (createMemoryHistory None) :: (unit memory, unit) history)))) =
     entries (adapter (projr (createMemoryHistory None) :: (unit memory, unit) history)) \<and>
   index (adapter (snd (history_go memory_opts (- 1)
       (projr (createMemoryHistory None) :: (unit memory, unit) history)))) = 0 \<and>
   href (location (snd (history_go memory_opts (- 1)
       (projr (createMemoryHistory None) :: (unit memory, unit) history)))) = ''/'' \<and>
   windowGo (adapter (snd (history_go memory_opts (- 1)
       (projr (createMemoryHistory None) :: (unit memory, unit) history)))) = [- 1]"
proof -
  let ?h = "projr (createMemoryHistory None) :: (unit memory, unit) history"
  have q: "queue ?h = []" and b: "blockers ?h = []"
    and l: "location ?h = parseLocation ''/'' (HState None None)"
    and m: "index (adapter ?h) = 0" "windowGo (adapter ?h) = []"
    by (simp_all add: memory_created_default memory_start_simps)
  have "createHistory memory_opts
      (memory_start \<lparr> initialEntries = [''/''], initialIndex = None \<rparr>) = Inr ?h"
    using memory_created_default [where ?'a = unit]
    by (simp add: createMemoryHistory_def)
  then have s: "in_step memory_opts ?h"
    by (rule in_step_created)
  note t = memory_go_leaves_entries_and_cursor [OF q s, of "- 1" "adapter ?h"]
  from t have 1: "entries (adapter (snd (history_go memory_opts (- 1) ?h))) = entries (adapter ?h)"
    by blast
  from t m have 2: "index (adapter (snd (history_go memory_opts (- 1) ?h))) = 0"
    by simp
  from t l have 3: "href (location (snd (history_go memory_opts (- 1) ?h))) = ''/''"
    by (simp add: parseLocation_href)
  from t b m have 4: "windowGo (adapter (snd (history_go memory_opts (- 1) ?h))) = [- 1]"
    by simp
  from q s 1 2 3 4 show ?thesis
    by blast
qed

text \<open>
  The claim as worded fails on a history with a task left on the queue: on the
  default memory history, \<^verbatim>\<open>push('/a')\<close> held by a blocker and released by
  \<^verbatim>\<open>cancel\<close> stays queued (no blocker is left and the location is in step); the
  flush of a following \<^verbatim>\<open>go(3)\<close> runs it, so that after \<^verbatim>\<open>go(3)\<close> the array has the
  second entry \<open>/a\<close>, the cursor is on 1 and the location is \<open>/a\<close>.
\<close>

theorem memory_go_flushes_pending_push_counterexample:
  "blockers (cancel (snd (history_push memory_opts ''/a'' None (block 5
      (projr (createMemoryHistory None) :: (unit memory, unit) history))))) = [] \<and>
   in_step memory_opts (cancel (snd (history_push memory_opts ''/a'' None (block 5
      (projr (createMemoryHistory None) :: (unit memory, unit) history))))) \<and>
   index (adapter (cancel (snd (history_push memory_opts ''/a'' None (block 5
      (projr (createMemoryHistory None) :: (unit memory, unit) history)))))) = 0 \<and>
   arr_length (entries (adapter (cancel (snd (history_push memory_opts ''/a'' None (block 5
      (projr (createMemoryHistory None) :: (unit memory, unit) history))))))) = 1 \<and>
   href (location (cancel (snd (history_push memory_opts ''/a'' None (block 5
      (projr (createMemoryHistory None) :: (unit memory, unit) history)))))) = ''/'' \<and>
   index (adapter (snd (history_go memory_opts 3 (cancel (snd (history_push memory_opts ''/a'' None (block 5
      (projr (createMemoryHistory None) :: (unit memory, unit) history)))))))) = 1 \<and>
   arr_length (entries (adapter (snd (history_go memory_opts 3 (cancel (snd (history_push memory_opts ''/a'' None (block 5
      (projr (createMemoryHistory None) :: (unit memory, unit) history))))))))) = 2 \<and>
   arr_elems (entries (adapter (snd (history_go memory_opts 3 (cancel (snd (history_push memory_opts ''/a'' None (block 5
      (projr (createMemoryHistory None) :: (unit memory, unit) history))))))))) 1 = Some ''/a'' \<and>
   href (location (snd (history_go memory_opts 3 (cancel (snd (history_push memory_opts ''/a'' None (block 5
      (projr (createMemoryHistory None) :: (unit memory, unit) history)))))))) = ''/a'' \<and>
   windowGo (adapter (snd (history_go memory_opts 3 (cancel (snd (history_push memory_opts ''/a'' None (block 5
      (projr (createMemoryHistory None) :: (unit memory, unit) history)))))))) = [3]"
proof -
  let ?h0 = "projr (createMemoryHistory None) :: (unit memory, unit) history"
  define h where "h = cancel (snd (history_push memory_opts ''/a'' None (block 5 ?h0)))"
  define g where "g = snd (history_go memory_opts 3 h)"
  have h0: "queue ?h0 = []" "blockers ?h0 = []"
    "location ?h0 = parseLocation ''/'' (HState None None)"
    by (simp_all add: memory_created_default)
  have "createHistory memory_opts
      (memory_start \<lparr> initialEntries = [''/''], initialIndex = None \<rparr>) = Inr ?h0"
    using memory_created_default [where ?'a = unit]
    by (simp add: createMemoryHistory_def)
  then have s0: "in_step memory_opts ?h0"
    by (rule in_step_created)
  have bl: "blockers (block 5 ?h0) = [5]"
    by (simp add: block_simps h0)
  have p: "snd (history_push memory_opts ''/a'' None (block 5 ?h0)) =
      (block 5 ?h0)\<lparr> queue := queue (block 5 ?h0) @ [PushTask ''/a'' None],
                       asked := asked (block 5 ?h0) @ [5] \<rparr>"
    by (simp add: history_push_def queueTask_blocked [OF bl])
  have h: "blockers h = []" "queue h = [PushTask ''/a'' None]" "adapter h = adapter ?h0"
    "location h = parseLocation ''/'' (HState None None)"
    unfolding h_def by (simp_all add: p cancel_simps block_simps h0)
  from s0 have s: "in_step memory_opts h"
    by (simp add: in_step_def h h0(3) split: sum.splits)
  let ?m = "adapter ?h0"
  let ?m1 = "fst (memory_pushState ''/a'' None ?m)"
  let ?m2 = "?m1\<lparr> windowGo := windowGo ?m1 @ [3] \<rparr>"
  have m: "index ?m = 0" "arr_length (entries ?m) = 1" "windowGo ?m = []"
    by (simp_all add: memory_created_default memory_start_simps)
  have m2: "index ?m2 = 1" "arr_length (entries ?m2) = 2"
    "arr_elems (entries ?m2) 1 = Some ''/a''" "windowGo ?m2 = [3]"
    "currentState ?m2 = HState None (Some (keysDrawn ?m))"
    by (simp_all add: memory_pushState_simps m)
  let ?hq = "h\<lparr> queue := queue h @ [GoTask 3] \<rparr>"
  have hq: "blockers ?hq = []" using h(1) by simp
  have r: "run memory_opts (queue ?hq) (adapter ?hq) = ?m2"
    by (simp add: h run_Cons run_Nil memory_opts_simps memory_go_simps)
  let ?hf = "h\<lparr> queue := [], adapter := ?m2 \<rparr>"
  have "history_go memory_opts 3 h = onUpdate memory_opts (?hq\<lparr> queue := [], adapter := ?m2 \<rparr>)"
    using tryFlush_quiet [OF memory_quiet _ hq]
    by (simp only: history_go_def queueTask_def memory_opts_simps r)
  then have f: "history_go memory_opts 3 h = onUpdate memory_opts ?hf"
    by simp
  have e: "arr_elems (entries (adapter ?hf)) (index (adapter ?hf)) = Some ''/a''"
    using m2 by simp
  have u: "onUpdate memory_opts ?hf =
      (None, ?hf\<lparr> location := parseLocation ''/a'' (currentState (adapter ?hf)),
                    notified := notified ?hf @ listeners ?hf \<rparr>)"
    by (rule memory_onUpdate(1) [OF e])
  have g: "adapter g = ?m2"
    "location g = parseLocation ''/a'' (HState None (Some (keysDrawn ?m)))"
    unfolding g_def f u by (simp_all add: m2)
  have 1: "index (adapter h) = 0" "arr_length (entries (adapter h)) = 1"
    "href (location h) = ''/''"
    by (simp_all add: h m parseLocation_href)
  have 2: "index (adapter g) = 1" "arr_length (entries (adapter g)) = 2"
    "arr_elems (entries (adapter g)) 1 = Some ''/a''" "href (location g) = ''/a''"
    "windowGo (adapter g) = [3]"
    by (simp_all only: g m2 parseLocation_href)
  from h(1) s 1 2 show ?thesis
    unfolding g_def h_def by blast
qed

section \<open>The order of queued tasks\<close>

text \<open>
  Claim C6: queued tasks run first in, first out. With no blocker installed and
  nothing pending, \<^verbatim>\<open>push(A)\<close> then \<^verbatim>\<open>push(B)\<close> leave the adapter in the state that
  \<^verbatim>\<open>pushState\<close> for \<open>B\<close> gives after \<^verbatim>\<open>pushState\<close> for \<open>A\<close>. With a blocker
  installed, any list of operations is appended to the queue in the order of the
  calls and the adapter is not touched, also when a flush is retried while a blocker
  remains. Once the blocker list is empty (every blocker removed by its \<^verbatim>\<open>unblock\<close>,
  or \<^verbatim>\<open>cancel\<close>) a flush that returns has emptied the queue and the adapter is in
  the state reached by the queued tasks in their order.
\<close>

theorem queued_tasks_run_in_order:
  fixes h g :: "('s, 'p) history"
  assumes "blockers h = []" "queue h = []" and "blockers g \<noteq> []"
  shows "adapter (snd (history_push opts B sb (snd (history_push opts A sa h))))
           = fst (pushState opts B sb (fst (pushState opts A sa (adapter h)))) \<and>
         queue (foldl (\<lambda>x t. snd (queueTask opts t x)) g ts) = queue g @ ts \<and>
         adapter (foldl (\<lambda>x t. snd (queueTask opts t x)) g ts) = adapter g \<and>
         queue (snd (tryFlush opts (foldl (\<lambda>x t. snd (queueTask opts t x)) g ts))) = queue g @ ts \<and>
         adapter (snd (tryFlush opts (foldl (\<lambda>x t. snd (queueTask opts t x)) g ts))) = adapter g \<and>
         (\<forall>h'. tryFlush opts (foldl (\<lambda>x b. unblock b x)
                    (foldl (\<lambda>x t. snd (queueTask opts t x)) g ts) (blockers g)) = (None, h') \<longrightarrow>
               queue h' = [] \<and> adapter h' = run opts (queue g @ ts) (adapter g)) \<and>
         (\<forall>h'. tryFlush opts (cancel (foldl (\<lambda>x t. snd (queueTask opts t x)) g ts)) = (None, h') \<longrightarrow>
               queue h' = [] \<and> adapter h' = run opts (queue g @ ts) (adapter g))"
proof -
  let ?h1 = "snd (history_push opts A sa h)"
  from queueTask_single [OF assms(1,2), of opts "PushTask A sa"]
  have 1: "queue ?h1 = []" "blockers ?h1 = []" "adapter ?h1 = fst (pushState opts A sa (adapter h))"
    by (simp_all add: history_push_def)
  from queueTask_single [OF 1(2,1), of opts "PushTask B sb"] 1(3)
  have ab: "adapter (snd (history_push opts B sb ?h1))
      = fst (pushState opts B sb (fst (pushState opts A sa (adapter h))))"
    by (simp add: history_push_def)
  let ?g1 = "foldl (\<lambda>x t. snd (queueTask opts t x)) g ts"
  from enqueue_blocked [OF assms(3), of opts ts]
  have g1: "?g1 = g\<lparr> queue := queue g @ ts,
                       asked := asked g @ replicate (length ts) (hd (blockers g)) \<rparr>" .
  then have g1f: "queue ?g1 = queue g @ ts" "adapter ?g1 = adapter g" "blockers ?g1 = blockers g"
    by simp_all
  from assms(3) g1f(3) obtain b bs where b: "blockers ?g1 = b # bs"
    by (cases "blockers g") simp_all
  have blocked: "queue (snd (tryFlush opts ?g1)) = queue g @ ts"
    "adapter (snd (tryFlush opts ?g1)) = adapter g"
    by (simp_all add: tryFlush_blocked [OF b] g1f)
  let ?g2 = "foldl (\<lambda>x b. unblock b x) ?g1 (blockers g)"
  from unblock_all [of ?g1 "blockers g"] g1f
  have g2: "blockers ?g2 = []" "queue ?g2 = queue g @ ts" "adapter ?g2 = adapter g"
    by simp_all
  have u: "queue h' = [] \<and> adapter h' = run opts (queue g @ ts) (adapter g)"
    if "tryFlush opts ?g2 = (None, h')" for h'
    using tryFlush_done [OF g2(1) that] g2 by simp
  have g3: "blockers (cancel ?g1) = []" "queue (cancel ?g1) = queue g @ ts"
    "adapter (cancel ?g1) = adapter g"
    by (simp_all add: cancel_def g1f)
  have c: "queue h' = [] \<and> adapter h' = run opts (queue g @ ts) (adapter g)"
    if "tryFlush opts (cancel ?g1) = (None, h')" for h'
    using tryFlush_done [OF g3(1) that] g3 by simp
  from ab g1f blocked u c show ?thesis
    by blast
qed


text \<open>
  On the default memory history: two pushes in a row put \<open>/a\<close> at index 1 and \<open>/b\<close>
  at index 2. With a blocker installed the same two pushes only fill the queue
  (index 1 of the entries stays empty); after \<^verbatim>\<open>cancel\<close> has emptied the blocker list,
  a flush writes \<open>/a\<close> at 1 and \<open>/b\<close> at 2.
\<close>

theorem queued_tasks_run_in_order_witness:
  "blockers (projr (createMemoryHistory None) :: (unit memory, unit) history) = [] \<and>
   queue (projr (createMemoryHistory None) :: (unit memory, unit) history) = [] \<and>
   blockers (block 5 (projr (createMemoryHistory None)) :: (unit memory, unit) history) \<noteq> [] \<and>
   arr_elems (entries (adapter (snd (history_push memory_opts ''/b'' None
     (snd (history_push memory_opts ''/a'' None
       (projr (createMemoryHistory None) :: (unit memory, unit) history))))))) 1 = Some ''/a'' \<and>
   arr_elems (entries (adapter (snd (history_push memory_opts ''/b'' None
     (snd (history_push memory_opts ''/a'' None
       (projr (createMemoryHistory None) :: (unit memory, unit) history))))))) 2 = Some ''/b'' \<and>
   queue (foldl (\<lambda>x t. snd (queueTask memory_opts t x))
     (block 5 (projr (createMemoryHistory None)) :: (unit memory, unit) history)
     [PushTask ''/a'' None, PushTask ''/b'' None]) = [PushTask ''/a'' None, PushTask ''/b'' None] \<and>
   arr_elems (entries (adapter (foldl (\<lambda>x t. snd (queueTask memory_opts t x))
     (block 5 (projr (createMemoryHistory None)) :: (unit memory, unit) history)
     [PushTask ''/a'' None, PushTask ''/b'' None]))) 1 = None \<and>
   arr_elems (entries (adapter (snd (tryFlush memory_opts (cancel
     (foldl (\<lambda>x t. snd (queueTask memory_opts t x))
       (block 5 (projr (createMemoryHistory None)) :: (unit memory, unit) history)
       [PushTask ''/a'' None, PushTask ''/b'' None])))))) 1 = Some ''/a'' \<and>
   arr_elems (entries (adapter (snd (tryFlush memory_opts (cancel
     (foldl (\<lambda>x t. snd (queueTask memory_opts t x))
       (block 5 (projr (createMemoryHistory None)) :: (unit memory, unit) history)
       [PushTask ''/a'' None, PushTask ''/b'' None])))))) 2 = Some ''/b''"
proof -
  let ?h = "projr (createMemoryHistory None) :: (unit memory, unit) history"
  let ?g = "block 5 ?h"
  let ?ts = "[PushTask ''/a'' None, PushTask ''/b'' None] :: unit task list"
  define g1 where "g1 = foldl (\<lambda>x t. snd (queueTask memory_opts t x)) ?g ?ts"
  let ?m = "adapter ?h"
  let ?m2 = "fst (memory_pushState ''/b'' None (fst (memory_pushState ''/a'' None ?m)))"
  have b: "blockers ?h = []" and q: "queue ?h = []"
    and m: "index ?m = 0" "arr_length (entries ?m) = 1" "arr_elems (entries ?m) 1 = None"
    by (simp_all add: memory_created_default memory_start_simps)
  have gb: "blockers ?g \<noteq> []" and gq: "queue ?g = []" and ga: "adapter ?g = ?m"
    by (simp_all add: block_simps q)
  have m2: "arr_elems (entries ?m2) 1 = Some ''/a''" "arr_elems (entries ?m2) 2 = Some ''/b''"
    "index ?m2 = 2"
    by (simp_all add: memory_pushState_simps m)
  note t = queued_tasks_run_in_order [OF b q gb, of memory_opts "''/b''" None "''/a''" None ?ts,
      folded g1_def]
  from t have "adapter (snd (history_push memory_opts ''/b'' None
      (snd (history_push memory_opts ''/a'' None ?h)))) = ?m2"
    by (simp add: memory_opts_simps)
  with m2 have 1: "arr_elems (entries (adapter (snd (history_push memory_opts ''/b'' None
      (snd (history_push memory_opts ''/a'' None ?h)))))) 1 = Some ''/a''"
    and 2: "arr_elems (entries (adapter (snd (history_push memory_opts ''/b'' None
      (snd (history_push memory_opts ''/a'' None ?h)))))) 2 = Some ''/b''"
    by simp_all
  from t gq have 3: "queue g1 = ?ts"
    by simp
  from t ga have g1a: "adapter g1 = ?m"
    by simp
  with m have 4: "arr_elems (entries (adapter g1)) 1 = None"
    by simp
  have cb: "blockers (cancel g1) = []" and cq: "queue (cancel g1) = ?ts"
    and ca: "adapter (cancel g1) = ?m"
    by (simp_all only: cancel_simps 3 g1a)
  have r: "run memory_opts ?ts ?m = ?m2"
    by (simp add: run_Cons run_Nil memory_opts_simps)
  have "tryFlush memory_opts (cancel g1) =
      onUpdate memory_opts ((cancel g1)\<lparr> queue := [], adapter := ?m2 \<rparr>)"
    using tryFlush_quiet [OF memory_quiet _ cb] by (simp add: memory_opts_simps cq ca r)
  moreover have "fst (onUpdate memory_opts ((cancel g1)\<lparr> queue := [], adapter := ?m2 \<rparr>)) = None"
    using m2 by (simp add: memory_onUpdate(1) [where e = "''/b''"])
  ultimately have "tryFlush memory_opts (cancel g1) = (None, snd (tryFlush memory_opts (cancel g1)))"
    by (metis prod.collapse)
  with t gq ga have "adapter (snd (tryFlush memory_opts (cancel g1))) = run memory_opts ?ts ?m"
    by simp
  with r m2 have 5: "arr_elems (entries (adapter (snd (tryFlush memory_opts (cancel g1))))) 1 = Some ''/a''"
    and 6: "arr_elems (entries (adapter (snd (tryFlush memory_opts (cancel g1))))) 2 = Some ''/b''"
    by simp_all
  from b q gb 1 2 3 4 5 6 show ?thesis
    unfolding g1_def by blast
qed

section \<open>Notification after a flush\<close>

text \<open>
  Claim C7: a flush that finds no blocker and returns has called the listeners, in
  the order of the set, once for every \<^verbatim>\<open>onUpdate\<close> call that the adapter itself
  made while its primitives ran, and after that once more exactly when the adapter
  declares no listener capability. So for an adapter without the capability the
  location is recomputed from \<^verbatim>\<open>getLocation\<close> and every registered listener is
  called once for the flush (such an adapter is never handed \<^verbatim>\<open>onUpdate\<close>: it is
  quiet); for an adapter with the capability the flush adds no call of its own,
  and the browser adapter, once subscribed, makes one call for a \<^verbatim>\<open>pushState\<close>:
  each listener hears of the change once. (The listener list has no duplicates:
  \<open>listeners_distinct\<close>.)
\<close>

theorem flush_notifies_once:
  fixes h h' :: "('s, 'p) history" and k :: "('w browser, 'q) history"
  assumes "blockers h = []" "tryFlush opts h = (None, h')"
    and "blockers k = []" "queue k = []" "pushStateFn (adapter k) = Wrapper Native"
  shows "notified h' =
           notified h @ concat (replicate (calls opts (queue h) (adapter h)) (listeners h))
             @ (if listener opts = None then listeners h else []) \<and>
         (listener opts = None \<longrightarrow>
            getLocation opts (adapter h') = Inr (location h') \<and>
            (quiet opts \<longrightarrow> notified h' = notified h @ listeners h)) \<and>
         (listener opts \<noteq> None \<longrightarrow>
            notified h' =
              notified h @ concat (replicate (calls opts (queue h) (adapter h)) (listeners h))) \<and>
         listener (browser_opts W arg) \<noteq> None \<and>
         notified (snd (history_push (browser_opts W arg) path st k)) = notified k @ listeners k"
proof -
  note d = tryFlush_done [OF assms(1,2)]
  have c0: "calls opts ts s = 0" if "quiet opts" for ts s
    using that by (induction ts arbitrary: s) (simp_all add: quiet_def)
  from d have 1: "notified h' =
      notified h @ concat (replicate (calls opts (queue h) (adapter h)) (listeners h))
        @ (if listener opts = None then listeners h else [])"
    by blast
  from d have 2: "listener opts = None \<longrightarrow> getLocation opts (adapter h') = Inr (location h')"
    by blast
  from 1 c0 have 3: "listener opts = None \<longrightarrow> quiet opts \<longrightarrow> notified h' = notified h @ listeners h"
    by simp
  from 1 have 4: "listener opts \<noteq> None \<longrightarrow> notified h' =
      notified h @ concat (replicate (calls opts (queue h) (adapter h)) (listeners h))"
    by simp
  have 5: "listener (browser_opts W arg) \<noteq> None"
    by (simp add: browser_opts_simps)
  have 6: "notified (snd (history_push (browser_opts W arg) path st k)) = notified k @ listeners k"
    by (simp add: browser_push_subscribed [OF assms(3,4,5)] browser_onUpdate)
  from 1 2 3 4 5 6 show ?thesis
    by blast
qed


text \<open>
  A memory history with listener 7 whose \<^verbatim>\<open>push('/a')\<close> was held by a blocker and
  released by \<^verbatim>\<open>cancel\<close>: the flush returns and has called listener 7 once. A
  browser history with listener 7 subscribed: \<^verbatim>\<open>push('/x')\<close> calls it once.
\<close>

theorem flush_notifies_once_witness:
  "blockers (cancel (snd (history_push memory_opts ''/a'' None (block 5 (listen memory_opts 7
      (projr (createMemoryHistory None) :: (unit memory, unit) history)))))) = [] \<and>
   fst (tryFlush memory_opts (cancel (snd (history_push memory_opts ''/a'' None (block 5
      (listen memory_opts 7 (projr (createMemoryHistory None) :: (unit memory, unit) history))))))) = None \<and>
   listeners (cancel (snd (history_push memory_opts ''/a'' None (block 5 (listen memory_opts 7
      (projr (createMemoryHistory None) :: (unit memory, unit) history)))))) = [7] \<and>
   notified (cancel (snd (history_push memory_opts ''/a'' None (block 5 (listen memory_opts 7
      (projr (createMemoryHistory None) :: (unit memory, unit) history)))))) = [] \<and>
   notified (snd (tryFlush memory_opts (cancel (snd (history_push memory_opts ''/a'' None (block 5
      (listen memory_opts 7 (projr (createMemoryHistory None) :: (unit memory, unit) history)))))))) = [7] \<and>
   blockers (listen (browser_opts tab_platform \<lparr> arg_getHref = None, arg_createHref = None \<rparr>) 7
      (projr (createBrowserHistory tab_platform \<lparr> arg_getHref = None, arg_createHref = None \<rparr>
         (fresh_browser \<lparr> tab_url = ''/'', tab_state = HState None None \<rparr>))
        :: (unit tab browser, unit) history)) = [] \<and>
   queue (listen (browser_opts tab_platform \<lparr> arg_getHref = None, arg_createHref = None \<rparr>) 7
      (projr (createBrowserHistory tab_platform \<lparr> arg_getHref = None, arg_createHref = None \<rparr>
         (fresh_browser \<lparr> tab_url = ''/'', tab_state = HState None None \<rparr>))
        :: (unit tab browser, unit) history)) = [] \<and>
   pushStateFn (adapter (listen (browser_opts tab_platform \<lparr> arg_getHref = None, arg_createHref = None \<rparr>) 7
      (projr (createBrowserHistory tab_platform \<lparr> arg_getHref = None, arg_createHref = None \<rparr>
         (fresh_browser \<lparr> tab_url = ''/'', tab_state = HState None None \<rparr>))
        :: (unit tab browser, unit) history))) = Wrapper Native \<and>
   notified (snd (history_push (browser_opts tab_platform \<lparr> arg_getHref = None, arg_createHref = None \<rparr>)
      ''/x'' None
      (listen (browser_opts tab_platform \<lparr> arg_getHref = None, arg_createHref = None \<rparr>) 7
        (projr (createBrowserHistory tab_platform \<lparr> arg_getHref = None, arg_createHref = None \<rparr>
           (fresh_browser \<lparr> tab_url = ''/'', tab_state = HState None None \<rparr>))
          :: (unit tab browser, unit) history)))) = [7]"
proof -
  let ?h0 = "projr (createMemoryHistory None) :: (unit memory, unit) history"
  define h where "h = cancel (snd (history_push memory_opts ''/a'' None (block 5
      (listen memory_opts 7 ?h0))))"
  let ?o = "browser_opts tab_platform \<lparr> arg_getHref = None, arg_createHref = None \<rparr>
      :: (unit tab browser, unit) opts"
  define k where "k = listen ?o 7
      (projr (createBrowserHistory tab_platform \<lparr> arg_getHref = None, arg_createHref = None \<rparr>
         (fresh_browser \<lparr> tab_url = ''/'', tab_state = HState None None \<rparr>))
        :: (unit tab browser, unit) history)"
  let ?l = "listen memory_opts 7 ?h0"
  have l: "listeners ?l = [7]" "queue ?l = []" "blockers ?l = []" "notified ?l = []"
    "adapter ?l = adapter ?h0"
    by (simp_all add: listen_simps memory_created_default memory_opts_simps)
  have bl: "blockers (block 5 ?l) = [5]"
    by (simp add: block_simps l)
  have p: "snd (history_push memory_opts ''/a'' None (block 5 ?l)) =
      (block 5 ?l)\<lparr> queue := queue (block 5 ?l) @ [PushTask ''/a'' None],
                       asked := asked (block 5 ?l) @ [5] \<rparr>"
    by (simp add: history_push_def queueTask_blocked [OF bl])
  have h: "blockers h = []" "queue h = [PushTask ''/a'' None]" "listeners h = [7]"
    "notified h = []" "adapter h = adapter ?h0"
    unfolding h_def by (simp_all add: p cancel_simps block_simps l)
  let ?m = "adapter ?h0"
  let ?m1 = "fst (memory_pushState ''/a'' None ?m)"
  have m: "index ?m = 0" "arr_length (entries ?m) = 1"
    by (simp_all add: memory_created_default memory_start_simps)
  have m1: "arr_elems (entries ?m1) (index ?m1) = Some ''/a''"
    by (simp add: memory_pushState_simps m)
  have "tryFlush memory_opts h = onUpdate memory_opts (h\<lparr> queue := [], adapter := ?m1 \<rparr>)"
    using tryFlush_quiet [OF memory_quiet _ h(1)]
    by (simp add: memory_opts_simps h run_Cons run_Nil)
  moreover have "fst (onUpdate memory_opts (h\<lparr> queue := [], adapter := ?m1 \<rparr>)) = None"
    using m1 by (simp add: memory_onUpdate(1) [where e = "''/a''"])
  ultimately have f: "fst (tryFlush memory_opts h) = None"
    by simp
  then have f': "tryFlush memory_opts h = (None, snd (tryFlush memory_opts h))"
    by (metis prod.collapse)
  have k: "blockers k = []" "queue k = []" "pushStateFn (adapter k) = Wrapper Native"
    "listeners k = [7]" "notified k = []"
    unfolding k_def
    by (simp_all add: listen_simps browser_created browser_opts_simps browser_listener_def
        fresh_browser_def)
  note t = flush_notifies_once [OF h(1) f' k(1,2,3), of tab_platform
      "\<lparr> arg_getHref = None, arg_createHref = None \<rparr>" "''/x''" None]
  have q: "quiet (memory_opts :: (unit memory, unit) opts)"
    by (rule memory_quiet)
  from t have "listener (memory_opts :: (unit memory, unit) opts) = None \<longrightarrow>
      getLocation memory_opts (adapter (snd (tryFlush memory_opts h)))
        = Inr (location (snd (tryFlush memory_opts h))) \<and>
      (quiet (memory_opts :: (unit memory, unit) opts) \<longrightarrow>
         notified (snd (tryFlush memory_opts h)) = notified h @ listeners h)"
    by blast
  with q h have 1: "notified (snd (tryFlush memory_opts h)) = [7]"
    by (simp add: memory_opts_simps)
  from t have "notified (snd (history_push ?o ''/x'' None k)) = notified k @ listeners k"
    by blast
  with k have 2: "notified (snd (history_push ?o ''/x'' None k)) = [7]"
    by simp
  from h f 1 k 2 show ?thesis
    unfolding h_def k_def by blast
qed

section \<open>When the location is recomputed\<close>

text \<open>
  Claim C5, amended: after a flush that finds no blocker and returns, the location
  is the one \<^verbatim>\<open>getLocation\<close> returns if the adapter declares no listener capability.
  For an adapter that declares it the flush recomputes nothing: if the adapter made
  no \<^verbatim>\<open>onUpdate\<close> call while the tasks ran (no subscription is installed while the
  listener set is empty) the location is the one from before the flush, although
  the tasks have run. The browser adapter with its subscription installed calls
  \<^verbatim>\<open>onUpdate\<close> in \<^verbatim>\<open>pushState\<close> and \<^verbatim>\<open>replaceState\<close>, and on a \<^verbatim>\<open>popstate\<close>
  event: after each of these the location is the recomputed one.
\<close>

theorem location_recomputed_when_notified:
  fixes h h' :: "('s, 'p) history" and k :: "('w browser, 'q) history"
  assumes "blockers h = []" "tryFlush opts h = (None, h')"
    and "blockers k = []" "queue k = []"
    and "pushStateFn (adapter k) = Wrapper Native" "replaceStateFn (adapter k) = Wrapper Native"
  shows "(listener opts = None \<longrightarrow> getLocation opts (adapter h') = Inr (location h')) \<and>
         (listener opts \<noteq> None \<longrightarrow> calls opts (queue h) (adapter h) = 0 \<longrightarrow>
            location h' = location h \<and> adapter h' = run opts (queue h) (adapter h)) \<and>
         getLocation (browser_opts W arg)
             (adapter (snd (history_push (browser_opts W arg) path st k)))
           = Inr (location (snd (history_push (browser_opts W arg) path st k))) \<and>
         getLocation (browser_opts W arg)
             (adapter (snd (history_replace (browser_opts W arg) path st k)))
           = Inr (location (snd (history_replace (browser_opts W arg) path st k))) \<and>
         (onPopstate (adapter k) \<longrightarrow>
            getLocation (browser_opts W arg) (adapter (snd (popstate (browser_opts W arg) k)))
              = Inr (location (snd (popstate (browser_opts W arg) k))))"
proof -
  from tryFlush_done [OF assms(1,2)]
  have 1: "listener opts = None \<longrightarrow> getLocation opts (adapter h') = Inr (location h')"
    by blast
  have 2: "location h' = location h \<and> adapter h' = run opts (queue h) (adapter h)"
    if "listener opts \<noteq> None" "calls opts (queue h) (adapter h) = 0"
  proof -
    from that(1) obtain sub where "listener opts = Some sub" by auto
    with assms(1,2) drain_silent [OF that(2)] show ?thesis
      by (auto simp: tryFlush_open)
  qed
  have 3: "getLocation (browser_opts W arg)
             (adapter (snd (history_push (browser_opts W arg) path st k)))
           = Inr (location (snd (history_push (browser_opts W arg) path st k)))"
    by (simp only: browser_push_subscribed [OF assms(3,4,5)] browser_in_step_onUpdate)
  have 4: "getLocation (browser_opts W arg)
             (adapter (snd (history_replace (browser_opts W arg) path st k)))
           = Inr (location (snd (history_replace (browser_opts W arg) path st k)))"
    by (simp only: browser_replace_subscribed [OF assms(3,4,6)] browser_in_step_onUpdate)
  have 5: "getLocation (browser_opts W arg) (adapter (snd (popstate (browser_opts W arg) k)))
              = Inr (location (snd (popstate (browser_opts W arg) k)))"
    if "onPopstate (adapter k)"
    using that by (simp only: popstate_def if_True browser_in_step_onUpdate)
  from 1 2 3 4 5 show ?thesis
    by blast
qed

text \<open>
  The claim as worded fails for an adapter with the capability and no listener,
  where no subscription is installed: on a browser history just created on the URL
  \<open>/\<close>, \<^verbatim>\<open>push('/x')\<close> changes the URL, so that \<^verbatim>\<open>getLocation\<close> returns the href
  \<open>/x\<close>, while the public location still has the href \<open>/\<close>.
\<close>

theorem browser_location_stale_counterexample:
  "listeners (projr (createBrowserHistory tab_platform \<lparr> arg_getHref = None, arg_createHref = None \<rparr>
       (fresh_browser \<lparr> tab_url = ''/'', tab_state = HState None None \<rparr>))
      :: (unit tab browser, unit) history) = [] \<and>
   href (location (snd (history_push
       (browser_opts tab_platform \<lparr> arg_getHref = None, arg_createHref = None \<rparr>) ''/x'' None
       (projr (createBrowserHistory tab_platform \<lparr> arg_getHref = None, arg_createHref = None \<rparr>
          (fresh_browser \<lparr> tab_url = ''/'', tab_state = HState None None \<rparr>))
         :: (unit tab browser, unit) history)))) = ''/'' \<and>
   href (projr (getLocation
       (browser_opts tab_platform \<lparr> arg_getHref = None, arg_createHref = None \<rparr>)
       (adapter (snd (history_push
         (browser_opts tab_platform \<lparr> arg_getHref = None, arg_createHref = None \<rparr>) ''/x'' None
         (projr (createBrowserHistory tab_platform \<lparr> arg_getHref = None, arg_createHref = None \<rparr>
            (fresh_browser \<lparr> tab_url = ''/'', tab_state = HState None None \<rparr>))
           :: (unit tab browser, unit) history)))))) = ''/x'' \<and>
   getLocation
       (browser_opts tab_platform \<lparr> arg_getHref = None, arg_createHref = None \<rparr>)
       (adapter (snd (history_push
         (browser_opts tab_platform \<lparr> arg_getHref = None, arg_createHref = None \<rparr>) ''/x'' None
         (projr (createBrowserHistory tab_platform \<lparr> arg_getHref = None, arg_createHref = None \<rparr>
            (fresh_browser \<lparr> tab_url = ''/'', tab_state = HState None None \<rparr>))
           :: (unit tab browser, unit) history))))
     \<noteq> Inr (location (snd (history_push
         (browser_opts tab_platform \<lparr> arg_getHref = None, arg_createHref = None \<rparr>) ''/x'' None
         (projr (createBrowserHistory tab_platform \<lparr> arg_getHref = None, arg_createHref = None \<rparr>
            (fresh_browser \<lparr> tab_url = ''/'', tab_state = HState None None \<rparr>))
           :: (unit tab browser, unit) history))))"
proof -
  let ?a = "\<lparr> arg_getHref = None, arg_createHref = None \<rparr> :: unit tab browser_arg"
  let ?o = "browser_opts tab_platform ?a :: (unit tab browser, unit) opts"
  let ?w = "\<lparr> tab_url = ''/'', tab_state = HState None None \<rparr> :: unit tab"
  define k where "k = (projr (createBrowserHistory tab_platform ?a (fresh_browser ?w))
      :: (unit tab browser, unit) history)"
  define k1 where "k1 = snd (history_push ?o ''/x'' None k)"
  have i: "indexOf ''/'' CHR ''#'' \<noteq> 0" "indexOf ''/'' CHR ''?'' \<noteq> 0"
    "indexOf ''/x'' CHR ''#'' \<noteq> 0" "indexOf ''/x'' CHR ''?'' \<noteq> 0"
    by (simp_all add: indexOf_def)
  have k: "listeners k = []" "blockers k = []" "queue k = []" "adapter k = fresh_browser ?w"
    "location k = parseLocation (getHref tab_platform ?a ?w) (HState None None)"
    unfolding k_def by (simp_all add: browser_created fresh_browser_def tab_platform_simps)
  let ?b1 = "fst (browser_pushState tab_platform ?a ''/x'' None (fresh_browser ?w))"
  have b1: "window ?b1 = \<lparr> tab_url = ''/x'', tab_state = HState None (Some 0) \<rparr>"
    by (simp add: browser_pushState_def fresh_browser_def tab_platform_simps browser_createHref_def)
  have n: "snd (browser_pushState tab_platform ?a ''/x'' None (fresh_browser ?w)) = 0"
    by (simp add: browser_pushState_def fresh_browser_def)
  let ?k0 = "k\<lparr> queue := queue k @ [PushTask ''/x'' None] \<rparr>"
  have "calls ?o (queue ?k0) (adapter ?k0) = 0"
    by (simp add: k browser_opts_simps n)
  from drain_silent [OF this]
  have "drain ?o ?k0 = (None, k\<lparr> queue := [], adapter := ?b1 \<rparr>)"
    by (simp add: k run_Cons run_Nil browser_opts_simps)
  then have p: "k1 = k\<lparr> queue := [], adapter := ?b1 \<rparr>"
    unfolding k1_def
    by (simp add: history_push_def queueTask_def tryFlush_open k browser_opts_simps)
  have l: "href (location k1) = ''/''"
    by (simp add: p k parseLocation_href getHref_tab [OF i(1,2)])
  have g: "getLocation ?o (adapter k1) =
      Inr (parseLocation ''/x'' (HState None (Some 0)))"
    by (simp add: p browser_opts_simps browser_getLocation_def b1 getHref_tab [OF i(3,4)]
        tab_platform_simps)
  then have g': "href (projr (getLocation ?o (adapter k1))) = ''/x''"
    by (simp add: parseLocation_href)
  have "getLocation ?o (adapter k1) \<noteq> Inr (location k1)"
  proof
    assume "getLocation ?o (adapter k1) = Inr (location k1)"
    with g' have "href (location k1) = ''/x''" by simp
    with l show False by simp
  qed
  with k(1) l g' show ?thesis
    unfolding k1_def k_def by blast
qed


text \<open>
  The hypotheses hold of a memory history whose \<^verbatim>\<open>push('/a')\<close> was held by a blocker
  and released by \<^verbatim>\<open>cancel\<close>, and of a browser history with one listener
  subscribed; there \<^verbatim>\<open>push('/x')\<close> leaves the location at \<open>/x\<close>.
\<close>

theorem location_recomputed_when_notified_witness:
  "blockers (cancel (snd (history_push memory_opts ''/a'' None (block 5
      (projr (createMemoryHistory None) :: (unit memory, unit) history))))) = [] \<and>
   fst (tryFlush memory_opts (cancel (snd (history_push memory_opts ''/a'' None (block 5
      (projr (createMemoryHistory None) :: (unit memory, unit) history)))))) = None \<and>
   getLocation memory_opts (adapter (snd (tryFlush memory_opts (cancel (snd (history_push memory_opts
      ''/a'' None (block 5 (projr (createMemoryHistory None) :: (unit memory, unit) history)))))))) =
     Inr (location (snd (tryFlush memory_opts (cancel (snd (history_push memory_opts
      ''/a'' None (block 5 (projr (createMemoryHistory None) :: (unit memory, unit) history)))))))) \<and>
   blockers (listen (browser_opts tab_platform \<lparr> arg_getHref = None, arg_createHref = None \<rparr>) 7
      (projr (createBrowserHistory tab_platform \<lparr> arg_getHref = None, arg_createHref = None \<rparr>
         (fresh_browser \<lparr> tab_url = ''/'', tab_state = HState None None \<rparr>))
        :: (unit tab browser, unit) history)) = [] \<and>
   queue (listen (browser_opts tab_platform \<lparr> arg_getHref = None, arg_createHref = None \<rparr>) 7
      (projr (createBrowserHistory tab_platform \<lparr> arg_getHref = None, arg_createHref = None \<rparr>
         (fresh_browser \<lparr> tab_url = ''/'', tab_state = HState None None \<rparr>))
        :: (unit tab browser, unit) history)) = [] \<and>
   pushStateFn (adapter (listen (browser_opts tab_platform \<lparr> arg_getHref = None, arg_createHref = None \<rparr>) 7
      (projr (createBrowserHistory tab_platform \<lparr> arg_getHref = None, arg_createHref = None \<rparr>
         (fresh_browser \<lparr> tab_url = ''/'', tab_state = HState None None \<rparr>))
        :: (unit tab browser, unit) history))) = Wrapper Native \<and>
   replaceStateFn (adapter (listen (browser_opts tab_platform \<lparr> arg_getHref = None, arg_createHref = None \<rparr>) 7
      (projr (createBrowserHistory tab_platform \<lparr> arg_getHref = None, arg_createHref = None \<rparr>
         (fresh_browser \<lparr> tab_url = ''/'', tab_state = HState None None \<rparr>))
        :: (unit tab browser, unit) history))) = Wrapper Native \<and>
   href (location (snd (history_push (browser_opts tab_platform \<lparr> arg_getHref = None, arg_createHref = None \<rparr>)
      ''/x'' None
      (listen (browser_opts tab_platform \<lparr> arg_getHref = None, arg_createHref = None \<rparr>) 7
        (projr (createBrowserHistory tab_platform \<lparr> arg_getHref = None, arg_createHref = None \<rparr>
           (fresh_browser \<lparr> tab_url = ''/'', tab_state = HState None None \<rparr>))
          :: (unit tab browser, unit) history))))) = ''/x''"
proof -
  let ?h0 = "projr (createMemoryHistory None) :: (unit memory, unit) history"
  define h where "h = cancel (snd (history_push memory_opts ''/a'' None (block 5 ?h0)))"
  let ?a = "\<lparr> arg_getHref = None, arg_createHref = None \<rparr> :: unit tab browser_arg"
  let ?o = "browser_opts tab_platform ?a :: (unit tab browser, unit) opts"
  let ?w = "\<lparr> tab_url = ''/'', tab_state = HState None None \<rparr> :: unit tab"
  define k where "k = listen ?o 7
      (projr (createBrowserHistory tab_platform ?a (fresh_browser ?w))
        :: (unit tab browser, unit) history)"
  define k1 where "k1 = snd (history_push ?o ''/x'' None k)"
  have h0: "queue ?h0 = []" "blockers ?h0 = []"
    by (simp_all add: memory_created_default)
  have bl: "blockers (block 5 ?h0) = [5]"
    by (simp add: block_simps h0)
  have p: "snd (history_push memory_opts ''/a'' None (block 5 ?h0)) =
      (block 5 ?h0)\<lparr> queue := queue (block 5 ?h0) @ [PushTask ''/a'' None],
                       asked := asked (block 5 ?h0) @ [5] \<rparr>"
    by (simp add: history_push_def queueTask_blocked [OF bl])
  have h: "blockers h = []" "queue h = [PushTask ''/a'' None]" "adapter h = adapter ?h0"
    unfolding h_def by (simp_all add: p cancel_simps block_simps h0)
  let ?m = "adapter ?h0"
  let ?m1 = "fst (memory_pushState ''/a'' None ?m)"
  have m: "index ?m = 0" "arr_length (entries ?m) = 1"
    by (simp_all add: memory_created_default memory_start_simps)
  have m1: "arr_elems (entries ?m1) (index ?m1) = Some ''/a''"
    by (simp add: memory_pushState_simps m)
  have "tryFlush memory_opts h = onUpdate memory_opts (h\<lparr> queue := [], adapter := ?m1 \<rparr>)"
    using tryFlush_quiet [OF memory_quiet _ h(1)]
    by (simp add: memory_opts_simps h run_Cons run_Nil)
  moreover have "fst (onUpdate memory_opts (h\<lparr> queue := [], adapter := ?m1 \<rparr>)) = None"
    using m1 by (simp add: memory_onUpdate(1) [where e = "''/a''"])
  ultimately have f: "fst (tryFlush memory_opts h) = None"
    by simp
  then have f': "tryFlush memory_opts h = (None, snd (tryFlush memory_opts h))"
    by (metis prod.collapse)
  have k: "blockers k = []" "queue k = []" "pushStateFn (adapter k) = Wrapper Native"
    "replaceStateFn (adapter k) = Wrapper Native" "keysMade (adapter k) = 0"
    unfolding k_def
    by (simp_all add: listen_simps browser_created browser_opts_simps browser_listener_def
        fresh_browser_def)
  note t = location_recomputed_when_notified [OF h(1) f' k(1,2,3,4), of tab_platform ?a
      "''/x''" None, folded k1_def]
  from t have 1: "getLocation memory_opts (adapter (snd (tryFlush memory_opts h))) =
      Inr (location (snd (tryFlush memory_opts h)))"
    by (simp add: memory_opts_simps)
  from t have 2: "getLocation ?o (adapter k1) = Inr (location k1)"
    by blast
  have i: "indexOf ''/x'' CHR ''#'' \<noteq> 0" "indexOf ''/x'' CHR ''?'' \<noteq> 0"
    by (simp_all add: indexOf_def)
  have "adapter k1 = fst (browser_pushState tab_platform ?a ''/x'' None (adapter k))"
    unfolding k1_def
    by (simp add: browser_push_subscribed [OF k(1,2,3)] onUpdate_frame)
  then have "window (adapter k1) = \<lparr> tab_url = ''/x'', tab_state = HState None (Some 0) \<rparr>"
    by (simp add: browser_pushState_def tab_platform_simps browser_createHref_def k)
  then have "getLocation ?o (adapter k1) = Inr (parseLocation ''/x'' (HState None (Some 0)))"
    by (simp add: browser_opts_simps browser_getLocation_def getHref_tab [OF i] tab_platform_simps)
  with 2 have "location k1 = parseLocation ''/x'' (HState None (Some 0))"
    by simp
  then have 3: "href (location k1) = ''/x''"
    by (simp only: parseLocation_href)
  from h(1) f 1 k(1,2,3,4) 3 show ?thesis
    unfolding h_def k_def k1_def by blast
qed

section \<open>The platform subscription\<close>

text \<open>
  Claim C8, amended, for the browser adapter. On a history created while no
  subscription is active, after any sequence of \<^verbatim>\<open>listen\<close> calls and calls of
  their unsubscribe functions the \<^verbatim>\<open>popstate\<close> subscription is active exactly when
  the listener set is not empty. Starting from an empty listener set: adding any
  non-empty list of distinct listeners installs the subscription once (one pair of
  \<^verbatim>\<open>addEventListener\<close> calls, one wrapper around \<^verbatim>\<open>pushState\<close>); calling each of
  their unsubscribe functions once, in any order, removes it once and restores
  \<^verbatim>\<open>pushState\<close>; a later \<^verbatim>\<open>listen\<close> installs it once more. Calling an unsubscribe
  function again does not raise and leaves the listener set as it is, but when the
  set is empty at that call the adapter's removal function is called again: the
  platform sees a second pair of \<^verbatim>\<open>removeEventListener\<close> calls, with the
  subscription still inactive and \<^verbatim>\<open>pushState\<close> still restored.
\<close>

theorem subscription_follows_listener_set:
  fixes h x :: "('w browser, 'p) history"
  assumes "listeners h = []" "distinct cbs" "cbs \<noteq> []" "distinct ds" "set ds = set cbs"
    and "\<not> onPopstate b"
  shows "(onPopstate (adapter (foldl (apply_sub_op (browser_opts W arg))
              (projr (createBrowserHistory W arg b)) ops))
            \<longleftrightarrow> listeners (foldl (apply_sub_op (browser_opts W arg))
              (projr (createBrowserHistory W arg b) :: ('w browser, 'p) history) ops) \<noteq> []) \<and>
         listeners (foldl (\<lambda>x c. listen (browser_opts W arg) c x) h cbs) = cbs \<and>
         onPopstate (adapter (foldl (\<lambda>x c. listen (browser_opts W arg) c x) h cbs)) \<and>
         pushStateFn (adapter (foldl (\<lambda>x c. listen (browser_opts W arg) c x) h cbs))
           = Wrapper (pushStateFn (adapter h)) \<and>
         domCalls (adapter (foldl (\<lambda>x c. listen (browser_opts W arg) c x) h cbs))
           = domCalls (adapter h) @ [AddEventListener ''pushstate'', AddEventListener ''popstate''] \<and>
         listeners (foldl (\<lambda>x c. unsubscribe c x)
             (foldl (\<lambda>x c. listen (browser_opts W arg) c x) h cbs) ds) = [] \<and>
         \<not> onPopstate (adapter (foldl (\<lambda>x c. unsubscribe c x)
             (foldl (\<lambda>x c. listen (browser_opts W arg) c x) h cbs) ds)) \<and>
         pushStateFn (adapter (foldl (\<lambda>x c. unsubscribe c x)
             (foldl (\<lambda>x c. listen (browser_opts W arg) c x) h cbs) ds))
           = pushStateFn (adapter h) \<and>
         domCalls (adapter (foldl (\<lambda>x c. unsubscribe c x)
             (foldl (\<lambda>x c. listen (browser_opts W arg) c x) h cbs) ds))
           = domCalls (adapter h) @ [AddEventListener ''pushstate'', AddEventListener ''popstate'']
               @ [RemoveEventListener ''pushstate'', RemoveEventListener ''popstate''] \<and>
         domCalls (adapter (listen (browser_opts W arg) c (foldl (\<lambda>x c. unsubscribe c x)
             (foldl (\<lambda>x c. listen (browser_opts W arg) c x) h cbs) ds)))
           = domCalls (adapter h) @ [AddEventListener ''pushstate'', AddEventListener ''popstate'']
               @ [RemoveEventListener ''pushstate'', RemoveEventListener ''popstate'']
               @ [AddEventListener ''pushstate'', AddEventListener ''popstate''] \<and>
         listeners (unsubscribe d (foldl (\<lambda>x c. unsubscribe c x)
             (foldl (\<lambda>x c. listen (browser_opts W arg) c x) h cbs) ds)) = [] \<and>
         \<not> onPopstate (adapter (unsubscribe d (foldl (\<lambda>x c. unsubscribe c x)
             (foldl (\<lambda>x c. listen (browser_opts W arg) c x) h cbs) ds))) \<and>
         pushStateFn (adapter (unsubscribe d (foldl (\<lambda>x c. unsubscribe c x)
             (foldl (\<lambda>x c. listen (browser_opts W arg) c x) h cbs) ds)))
           = pushStateFn (adapter h) \<and>
         domCalls (adapter (unsubscribe d (foldl (\<lambda>x c. unsubscribe c x)
             (foldl (\<lambda>x c. listen (browser_opts W arg) c x) h cbs) ds)))
           = domCalls (adapter h) @ [AddEventListener ''pushstate'', AddEventListener ''popstate'']
               @ [RemoveEventListener ''pushstate'', RemoveEventListener ''popstate'']
               @ [RemoveEventListener ''pushstate'', RemoveEventListener ''popstate''] \<and>
         listeners (unsubscribe d (unsubscribe d x)) = listeners (unsubscribe d x)"
proof -
  let ?o = "browser_opts W arg :: ('w browser, 'p) opts"
  let ?add = "[AddEventListener ''pushstate'', AddEventListener ''popstate'']"
  let ?rem = "[RemoveEventListener ''pushstate'', RemoveEventListener ''popstate'']"
  let ?k = "projr (createBrowserHistory W arg b) :: ('w browser, 'p) history"
  from subscription_inv_ops [OF subscription_inv_created [OF assms(6)], of W arg W arg ops]
  have inv: "onPopstate (adapter (foldl (apply_sub_op ?o) ?k ops))
      \<longleftrightarrow> listeners (foldl (apply_sub_op ?o) ?k ops) \<noteq> []"
    by (simp add: subscription_inv_def)
  define h1 where "h1 = foldl (\<lambda>x c. listen ?o c x) h cbs"
  define h2 where "h2 = foldl (\<lambda>x c. unsubscribe c x) h1 ds"
  let ?b1 = "fst (browser_listener (adapter h))"
  let ?t = "teardown (pushStateFn (adapter h)) (replaceStateFn (adapter h))"
  have l: "listener ?o = Some browser_listener"
    by (simp add: browser_opts_simps)
  from listen_all [OF assms(1,2,3) l]
  have 1: "listeners h1 = cbs" "adapter h1 = ?b1" "unsub h1 = ?t"
    unfolding h1_def by (simp_all add: browser_listener_simps)
  from 1(1) assms(3,5) have "set ds = set (listeners h1)" "listeners h1 \<noteq> []"
    by simp_all
  from unsubscribe_all [OF assms(4) this]
  have 2: "listeners h2 = []" "unsub h2 = ?t" "adapter h2 = ?t ?b1"
    unfolding h2_def by (simp_all add: 1)
  have 3: "adapter (listen ?o c h2) = fst (browser_listener (?t ?b1))"
    by (simp add: listen_simps 2 l)
  have 4: "listeners (unsubscribe d h2) = []" "adapter (unsubscribe d h2) = ?t (?t ?b1)"
    by (simp_all add: unsubscribe_simps 2)
  have a1: "onPopstate (adapter h1)"
    "pushStateFn (adapter h1) = Wrapper (pushStateFn (adapter h))"
    "domCalls (adapter h1) = domCalls (adapter h) @ ?add"
    by (simp_all add: 1 browser_listener_simps)
  have a2: "\<not> onPopstate (adapter h2)" "pushStateFn (adapter h2) = pushStateFn (adapter h)"
    "domCalls (adapter h2) = domCalls (adapter h) @ ?add @ ?rem"
    by (simp_all add: 2 teardown_simps browser_listener_simps)
  have a3: "domCalls (adapter (listen ?o c h2)) = domCalls (adapter h) @ ?add @ ?rem @ ?add"
    by (simp add: 3 teardown_simps browser_listener_simps)
  have a4: "\<not> onPopstate (adapter (unsubscribe d h2))"
    "pushStateFn (adapter (unsubscribe d h2)) = pushStateFn (adapter h)"
    "domCalls (adapter (unsubscribe d h2)) = domCalls (adapter h) @ ?add @ ?rem @ ?rem"
    by (simp_all add: 4 teardown_simps browser_listener_simps)
  note tw = unsubscribe_twice [of d x]
  from inv 1(1) a1 2(1) a2 a3 4(1) a4 tw show ?thesis
    unfolding h2_def h1_def by blast
qed


text \<open>
  On a browser history just created: with the listeners 7 and 8 added and then
  removed in the other order, the platform saw one installation and one removal,
  and a third listener installs the subscription once more.
\<close>

theorem subscription_follows_listener_set_witness:
  "listeners (projr (createBrowserHistory tab_platform \<lparr> arg_getHref = None, arg_createHref = None \<rparr>
            (fresh_browser \<lparr> tab_url = ''/'', tab_state = HState None None \<rparr>))
          :: (unit tab browser, unit) history) = [] \<and>
   distinct [7, 8 :: nat] \<and> [7, 8 :: nat] \<noteq> [] \<and> distinct [8, 7 :: nat] \<and>
   set [8, 7 :: nat] = set [7, 8] \<and>
   \<not> onPopstate (fresh_browser \<lparr> tab_url = ''/'', tab_state = HState None None :: unit hstate \<rparr>) \<and>
   (onPopstate (adapter (foldl (apply_sub_op (browser_opts tab_platform \<lparr> arg_getHref = None, arg_createHref = None \<rparr>))
        (projr (createBrowserHistory tab_platform \<lparr> arg_getHref = None, arg_createHref = None \<rparr>
            (fresh_browser \<lparr> tab_url = ''/'', tab_state = HState None None \<rparr>))
          :: (unit tab browser, unit) history) [Listen 7, Listen 8, Unsubscribe 7]))
      \<longleftrightarrow> listeners (foldl (apply_sub_op (browser_opts tab_platform \<lparr> arg_getHref = None, arg_createHref = None \<rparr>))
        (projr (createBrowserHistory tab_platform \<lparr> arg_getHref = None, arg_createHref = None \<rparr>
            (fresh_browser \<lparr> tab_url = ''/'', tab_state = HState None None \<rparr>))
          :: (unit tab browser, unit) history) [Listen 7, Listen 8, Unsubscribe 7]) \<noteq> []) \<and>
   listeners (foldl (\<lambda>x c. listen (browser_opts tab_platform \<lparr> arg_getHref = None, arg_createHref = None \<rparr>) c x)
        (projr (createBrowserHistory tab_platform \<lparr> arg_getHref = None, arg_createHref = None \<rparr>
            (fresh_browser \<lparr> tab_url = ''/'', tab_state = HState None None \<rparr>))
          :: (unit tab browser, unit) history) [7, 8]) = [7, 8] \<and>
   domCalls (adapter (foldl (\<lambda>x c. listen (browser_opts tab_platform \<lparr> arg_getHref = None, arg_createHref = None \<rparr>) c x)
        (projr (createBrowserHistory tab_platform \<lparr> arg_getHref = None, arg_createHref = None \<rparr>
            (fresh_browser \<lparr> tab_url = ''/'', tab_state = HState None None \<rparr>))
          :: (unit tab browser, unit) history) [7, 8]))
     = [AddEventListener ''pushstate'', AddEventListener ''popstate''] \<and>
   listeners (foldl (\<lambda>x c. unsubscribe c x)
      (foldl (\<lambda>x c. listen (browser_opts tab_platform \<lparr> arg_getHref = None, arg_createHref = None \<rparr>) c x)
        (projr (createBrowserHistory tab_platform \<lparr> arg_getHref = None, arg_createHref = None \<rparr>
            (fresh_browser \<lparr> tab_url = ''/'', tab_state = HState None None \<rparr>))
          :: (unit tab browser, unit) history) [7, 8]) [8, 7]) = [] \<and>
   domCalls (adapter (foldl (\<lambda>x c. unsubscribe c x)
      (foldl (\<lambda>x c. listen (browser_opts tab_platform \<lparr> arg_getHref = None, arg_createHref = None \<rparr>) c x)
        (projr (createBrowserHistory tab_platform \<lparr> arg_getHref = None, arg_createHref = None \<rparr>
            (fresh_browser \<lparr> tab_url = ''/'', tab_state = HState None None \<rparr>))
          :: (unit tab browser, unit) history) [7, 8]) [8, 7]))
     = [AddEventListener ''pushstate'', AddEventListener ''popstate'',
        RemoveEventListener ''pushstate'', RemoveEventListener ''popstate''] \<and>
   domCalls (adapter (listen (browser_opts tab_platform \<lparr> arg_getHref = None, arg_createHref = None \<rparr>) 9 (foldl (\<lambda>x c. unsubscribe c x)
      (foldl (\<lambda>x c. listen (browser_opts tab_platform \<lparr> arg_getHref = None, arg_createHref = None \<rparr>) c x)
        (projr (createBrowserHistory tab_platform \<lparr> arg_getHref = None, arg_createHref = None \<rparr>
            (fresh_browser \<lparr> tab_url = ''/'', tab_state = HState None None \<rparr>))
          :: (unit tab browser, unit) history) [7, 8]) [8, 7])))
     = [AddEventListener ''pushstate'', AddEventListener ''popstate'',
        RemoveEventListener ''pushstate'', RemoveEventListener ''popstate'',
        AddEventListener ''pushstate'', AddEventListener ''popstate'']"
proof -
  let ?a = "\<lparr> arg_getHref = None, arg_createHref = None \<rparr> :: unit tab browser_arg"
  let ?o = "browser_opts tab_platform ?a :: (unit tab browser, unit) opts"
  let ?w = "\<lparr> tab_url = ''/'', tab_state = HState None None \<rparr> :: unit tab"
  define k where "k = (projr (createBrowserHistory tab_platform ?a (fresh_browser ?w))
      :: (unit tab browser, unit) history)"
  define h1 where "h1 = foldl (\<lambda>x c. listen ?o c x) k [7, 8]"
  define h2 where "h2 = foldl (\<lambda>x c. unsubscribe c x) h1 [8, 7]"
  define r where "r = foldl (apply_sub_op ?o) k [Listen 7, Listen 8, Unsubscribe 7]"
  have k: "listeners k = []" "domCalls (adapter k) = []"
    unfolding k_def by (simp_all add: browser_created fresh_browser_def)
  have c: "distinct [7, 8 :: nat]" "[7, 8 :: nat] \<noteq> []" "distinct [8, 7 :: nat]"
    "set [8, 7 :: nat] = set [7, 8]"
    by auto
  have f: "\<not> onPopstate (fresh_browser ?w)"
    by (simp add: fresh_browser_def)
  note t = subscription_follows_listener_set [OF k(1) c f, of tab_platform ?a
      "[Listen 7, Listen 8, Unsubscribe 7]" 9 7 k,
      folded k_def, folded h1_def, folded h2_def, folded r_def]
  from t have 1: "onPopstate (adapter r) \<longleftrightarrow> listeners r \<noteq> []"
    by blast
  from t have 2: "listeners h1 = [7, 8]"
    by blast
  from t have "domCalls (adapter h1) =
      domCalls (adapter k) @ [AddEventListener ''pushstate'', AddEventListener ''popstate'']"
    by blast
  then have 3: "domCalls (adapter h1) = [AddEventListener ''pushstate'', AddEventListener ''popstate'']"
    by (simp add: k)
  from t have 4: "listeners h2 = []"
    by blast
  from t have "domCalls (adapter h2) =
      domCalls (adapter k) @ [AddEventListener ''pushstate'', AddEventListener ''popstate'']
        @ [RemoveEventListener ''pushstate'', RemoveEventListener ''popstate'']"
    by blast
  then have 5: "domCalls (adapter h2) =
      [AddEventListener ''pushstate'', AddEventListener ''popstate'',
       RemoveEventListener ''pushstate'', RemoveEventListener ''popstate'']"
    by (simp add: k)
  from t have "domCalls (adapter (listen ?o 9 h2)) =
      domCalls (adapter k) @ [AddEventListener ''pushstate'', AddEventListener ''popstate'']
        @ [RemoveEventListener ''pushstate'', RemoveEventListener ''popstate'']
        @ [AddEventListener ''pushstate'', AddEventListener ''popstate'']"
    by blast
  then have 6: "domCalls (adapter (listen ?o 9 h2)) =
      [AddEventListener ''pushstate'', AddEventListener ''popstate'',
       RemoveEventListener ''pushstate'', RemoveEventListener ''popstate'',
       AddEventListener ''pushstate'', AddEventListener ''popstate'']"
    by (simp add: k)
  from k(1) c f 1 2 3 4 5 6 show ?thesis
    unfolding r_def h2_def h1_def k_def by blast
qed

text \<open>
  The claim as worded fails in its last part: the function returned by
  \<^verbatim>\<open>listen(7)\<close>, called a second time, finds the set empty and calls \<^verbatim>\<open>unsub\<close>
  again, so the platform sees the two \<^verbatim>\<open>removeEventListener\<close> calls twice.
\<close>

theorem unsubscribe_twice_tears_down_twice_counterexample:
  "listeners (unsubscribe 7 (unsubscribe 7 (listen (browser_opts tab_platform \<lparr> arg_getHref = None, arg_createHref = None \<rparr>) 7
      (projr (createBrowserHistory tab_platform \<lparr> arg_getHref = None, arg_createHref = None \<rparr>
            (fresh_browser \<lparr> tab_url = ''/'', tab_state = HState None None \<rparr>))
          :: (unit tab browser, unit) history)))) = [] \<and>
   domCalls (adapter (unsubscribe 7 (listen (browser_opts tab_platform \<lparr> arg_getHref = None, arg_createHref = None \<rparr>) 7
      (projr (createBrowserHistory tab_platform \<lparr> arg_getHref = None, arg_createHref = None \<rparr>
            (fresh_browser \<lparr> tab_url = ''/'', tab_state = HState None None \<rparr>))
          :: (unit tab browser, unit) history))))
     = [AddEventListener ''pushstate'', AddEventListener ''popstate'',
        RemoveEventListener ''pushstate'', RemoveEventListener ''popstate''] \<and>
   domCalls (adapter (unsubscribe 7 (unsubscribe 7 (listen (browser_opts tab_platform \<lparr> arg_getHref = None, arg_createHref = None \<rparr>) 7
      (projr (createBrowserHistory tab_platform \<lparr> arg_getHref = None, arg_createHref = None \<rparr>
            (fresh_browser \<lparr> tab_url = ''/'', tab_state = HState None None \<rparr>))
          :: (unit tab browser, unit) history)))))
     = [AddEventListener ''pushstate'', AddEventListener ''popstate'',
        RemoveEventListener ''pushstate'', RemoveEventListener ''popstate'',
        RemoveEventListener ''pushstate'', RemoveEventListener ''popstate'']"
proof -
  let ?a = "\<lparr> arg_getHref = None, arg_createHref = None \<rparr> :: unit tab browser_arg"
  let ?o = "browser_opts tab_platform ?a :: (unit tab browser, unit) opts"
  let ?w = "\<lparr> tab_url = ''/'', tab_state = HState None None \<rparr> :: unit tab"
  define k where "k = (projr (createBrowserHistory tab_platform ?a (fresh_browser ?w))
      :: (unit tab browser, unit) history)"
  define l where "l = listen ?o 7 k"
  define u where "u = unsubscribe 7 l"
  have k: "listeners k = []" "domCalls (adapter k) = []"
    unfolding k_def by (simp_all add: browser_created fresh_browser_def)
  have l: "listeners l = [7]"
    "unsub l = teardown (pushStateFn (adapter k)) (replaceStateFn (adapter k))"
    "domCalls (adapter l) = [AddEventListener ''pushstate'', AddEventListener ''popstate'']"
    unfolding l_def by (simp_all add: listen_simps k browser_opts_simps browser_listener_simps)
  have u: "listeners u = []"
    "unsub u = teardown (pushStateFn (adapter k)) (replaceStateFn (adapter k))"
    "domCalls (adapter u) =
       [AddEventListener ''pushstate'', AddEventListener ''popstate'',
        RemoveEventListener ''pushstate'', RemoveEventListener ''popstate'']"
    unfolding u_def by (simp_all add: unsubscribe_simps l teardown_simps)
  have v: "listeners (unsubscribe 7 u) = []"
    "domCalls (adapter (unsubscribe 7 u)) =
       [AddEventListener ''pushstate'', AddEventListener ''popstate'',
        RemoveEventListener ''pushstate'', RemoveEventListener ''popstate'',
        RemoveEventListener ''pushstate'', RemoveEventListener ''popstate'']"
    by (simp_all add: unsubscribe_simps u teardown_simps)
  from v u(3) show ?thesis
    unfolding u_def l_def k_def by blast
qed

end
